theory Spec2Isabelle
  imports Complex_Main
begin

section \<open>Hand-space: the per-frame simulation of \<open>HandPhysicsGame.tsx\<close>\<close>

text \<open>
  The embedding follows \<open>src/components/HandPhysicsGame.tsx\<close> and \<open>src/types.ts\<close>.
  JavaScript numbers are idealised as \<^typ>\<open>real\<close>: rounding, infinities and NaN of IEEE
  doubles are not modelled. \<open>Math.hypot\<close>, \<open>Math.atan2\<close>, \<open>Math.sin\<close> and
  \<open>Math.cos\<close> are the host's built-ins and stand here as their real-valued counterparts.
  Rendering (the canvas drawing of \<open>loop\<close> and \<open>drawBlob\<close>) writes nothing of the simulation state and
  is left out, but for the one call of \<open>performance.now()\<close> that \<open>drawBlob\<close> makes (line 232).
\<close>

subsection \<open>Data model (\<open>src/types.ts\<close>)\<close>

text \<open>
  \<open>PhysicsObject\<close>: the field \<open>id\<close> is called \<open>obj_id\<close> (\<open>id\<close> is the identity function
  of HOL). \<open>grabbedByHandIndex: number | null\<close> is an option.
\<close>

record PhysicsObject =
  obj_id :: real
  x :: real
  y :: real
  vx :: real
  vy :: real
  radius :: real
  color :: string
  isGrabbed :: bool
  grabbedByHandIndex :: "nat option"
  wobblePhase :: real
  createdAt :: real

record GameSettings =
  gravity :: real
  friction :: real
  bounce :: real
  pinchThreshold :: real
  throwForce :: real
  handColor :: string
  showSkeleton :: bool
  debug :: bool
  enableCollisions :: bool
  fusionChance :: real
  blobFactor :: real

text \<open>
  \<open>HandPoint\<close> (\<open>{x, y}\<close>) and a normalised landmark are pairs of coordinates. The landmarks of
  one hand or face are a function of the landmark index: the landmarker delivers all of them
  (21 for a hand, 478 for a face), so that no read of the source is out of range.
\<close>

type_synonym HandPoint = "real \<times> real"

type_synonym Landmark = "real \<times> real"

text \<open>
  One entry of the frame-local table \<open>handPositions\<close>; its fields \<open>x\<close>, \<open>y\<close> are called
  \<open>hx\<close>, \<open>hy\<close> here.
\<close>

record HandPosition =
  hx :: real
  hy :: real
  isPinching :: bool
  isGun :: bool
  tipX :: real
  tipY :: real
  velocityY :: real

definition hypot :: "real \<Rightarrow> real \<Rightarrow> real" where
  "hypot a b = sqrt (a\<^sup>2 + b\<^sup>2)"

text \<open>
  The outside world of one run: the \<open>k\<close>-th call of the page to \<open>Math.random()\<close>,
  \<open>Date.now()\<close> or \<open>performance.now()\<close> answers with the value of the matching
  function at \<open>k\<close>; every such call advances the counter \<open>tick\<close> of the state by one.
\<close>

record Env =
  mathRandom :: "nat \<Rightarrow> real"
  dateNow :: "nat \<Rightarrow> real"
  performanceNow :: "nat \<Rightarrow> real"

record View =
  innerWidth :: real
  innerHeight :: real
  canvasWidth :: real
  canvasHeight :: real

text \<open>The parameters of \<open>spawnObjects\<close>; an omitted (\<open>undefined\<close>) argument is \<open>None\<close>.\<close>

record SpawnArgs =
  count :: nat
  argX :: "real option"
  argY :: "real option"
  argVx :: "real option"
  argVy :: "real option"
  argRadius :: "real option"
  argColor :: "string option"
  argGrabbedBy :: "nat option"

record MouthState =
  mouthCenterX :: real
  mouthCenterY :: real
  isMouthOpen :: bool
  mouthWidth :: real

text \<open>
  The mutable state of the component during one frame. \<open>objects\<close> is the array that line 342
  captures (\<open>const objects = objectsRef.current\<close>); its elements are mutated in place.
  \<open>spawnObjects\<close> never pushes to that array: it installs a fresh array
  \<open>[...objectsRef.current, ...newObjects]\<close> that shares the old elements. So during a frame
  \<open>objectsRef.current\<close> is \<open>objects\<close> followed by \<open>spawned\<close>, the objects appended since the
  capture. \<open>wasPinchingRef\<close> is the array \<open>[false, false]\<close>; a slot out of range reads as
  \<open>undefined\<close>, which is falsy like \<open>False\<close>.
\<close>

record GameState =
  objects :: "PhysicsObject list"
  spawned :: "PhysicsObject list"
  objectsToRemove :: "real set"
  wasPinchingRef :: "nat \<Rightarrow> bool"
  lastShotTimeRef :: real
  prevHandPosRef :: "nat \<rightharpoonup> HandPoint"
  tick :: nat

definition objectsRef_current :: "GameState \<Rightarrow> PhysicsObject list" where
  "objectsRef_current s = objects s @ spawned s"

subsection \<open>\<open>spawnObjects\<close> (lines 49--108)\<close>

definition colors :: "string list" where
  "colors = [''#f43f5e'', ''#3b82f6'', ''#eab308'', ''#a855f7'', ''#ec4899'', ''#06b6d4'',
             ''#10b981'', ''#f97316'']"

text \<open>
  \<open>colors[Math.floor(r * colors.length)]\<close>. \<open>Math.random()\<close> is in \<open>[0, 1)\<close>, so the index is
  in range; out of range JavaScript reads \<open>undefined\<close>, which stands here as the empty string.
\<close>

definition pick_color :: "real \<Rightarrow> string" where
  "pick_color r =
     (let i = \<lfloor>r * real (length colors)\<rfloor>
      in if 0 \<le> i \<and> i < int (length colors) then colors ! nat i else [])"

text \<open>The rejection test of lines 74--75 and 83--84.\<close>

definition too_close :: "real \<Rightarrow> real \<Rightarrow> real \<Rightarrow> PhysicsObject \<Rightarrow> bool" where
  "too_close finalX finalY finalRadius obj =
     (hypot (x obj - finalX) (y obj - finalY) < radius obj + finalRadius + 5)"

text \<open>
  Lines 93--105: the object literal, its properties evaluated in order. The result is the
  counter after the calls and the new object.
\<close>

definition make_object :: "Env \<Rightarrow> SpawnArgs \<Rightarrow> nat \<Rightarrow> real \<Rightarrow> real \<Rightarrow> real \<Rightarrow> nat \<times> PhysicsObject" where
  "make_object E a t finalX finalY finalRadius =
     (let idv = dateNow E t + mathRandom E (t + 1);
          t2 = t + 2;
          vxv = (case argVx a of Some v \<Rightarrow> v | None \<Rightarrow> (mathRandom E t2 - 0.5) * 6);
          t3 = (case argVx a of Some v \<Rightarrow> t2 | None \<Rightarrow> t2 + 1);
          vyv = (case argVy a of Some v \<Rightarrow> v | None \<Rightarrow> (mathRandom E t3 - 0.5) * 6);
          t4 = (case argVy a of Some v \<Rightarrow> t3 | None \<Rightarrow> t3 + 1);
          col = (case argColor a of Some c \<Rightarrow> c | None \<Rightarrow> pick_color (mathRandom E t4));
          t5 = (case argColor a of Some c \<Rightarrow> t4 | None \<Rightarrow> t4 + 1);
          wob = mathRandom E t5 * pi * 2;
          cr = performanceNow E (t5 + 1)
      in (t5 + 2,
          \<lparr>obj_id = idv, x = finalX, y = finalY, vx = vxv, vy = vyv, radius = finalRadius,
           color = col, isGrabbed = (argGrabbedBy a \<noteq> None),
           grabbedByHandIndex = argGrabbedBy a, wobblePhase = wob, createdAt = cr\<rparr>))"

text \<open>
  One turn of the \<open>while\<close> loop after \<open>totalAttempts++\<close> (lines 62--105): the counter after
  it, and the object pushed, if any (\<open>None\<close> is the \<open>continue\<close> of line 90).
\<close>

definition spawn_attempt :: "Env \<Rightarrow> View \<Rightarrow> PhysicsObject list \<Rightarrow> SpawnArgs \<Rightarrow> nat \<Rightarrow> PhysicsObject list \<Rightarrow> nat \<times> PhysicsObject option" where
  "spawn_attempt E V existing a t newObjects =
     (let finalRadius = (case argRadius a of Some r \<Rightarrow> r | None \<Rightarrow> 20 + mathRandom E t * 25);
          t1 = (case argRadius a of Some r \<Rightarrow> t | None \<Rightarrow> t + 1)
      in if argX a = None \<or> argY a = None then
           (let finalX = mathRandom E t1 * (innerWidth V - 200) + 100;
                finalY = mathRandom E (t1 + 1) * (innerHeight V - 200) + 100;
                t2 = t1 + 2;
                safe = (\<not> list_ex (too_close finalX finalY finalRadius) existing
                        \<and> \<not> list_ex (too_close finalX finalY finalRadius) newObjects)
            in if \<not> safe then (t2, None)
               else (case make_object E a t2 finalX finalY finalRadius of
                       (t3, ob) \<Rightarrow> (t3, Some ob)))
         else (case make_object E a t1 (the (argX a)) (the (argY a)) finalRadius of
                 (t3, ob) \<Rightarrow> (t3, Some ob)))"

text \<open>
  The \<open>while\<close> loop of line 59, from the counter \<open>t\<close>, \<open>totalAttempts\<close> and \<open>newObjects\<close>
  of one moment to their values when the loop is left.
\<close>

function spawn_loop :: "Env \<Rightarrow> View \<Rightarrow> PhysicsObject list \<Rightarrow> SpawnArgs \<Rightarrow> nat \<Rightarrow> nat \<Rightarrow> PhysicsObject list \<Rightarrow> nat \<times> nat \<times> PhysicsObject list" where
  "spawn_loop E V existing a t totalAttempts newObjects =
     (if length newObjects < count a \<and> totalAttempts < count a * 50 then
        (case spawn_attempt E V existing a t newObjects of
           (t', None) \<Rightarrow> spawn_loop E V existing a t' (totalAttempts + 1) newObjects
         | (t', Some ob) \<Rightarrow> spawn_loop E V existing a t' (totalAttempts + 1) (newObjects @ [ob]))
      else (t, totalAttempts, newObjects))"
  by pat_completeness auto
termination
  by (relation "measure (\<lambda>(E, V, existing, a, t, totalAttempts, newObjects). count a * 50 - totalAttempts)") auto

declare spawn_loop.simps [simp del]

definition spawnObjects :: "Env \<Rightarrow> View \<Rightarrow> SpawnArgs \<Rightarrow> GameState \<Rightarrow> GameState" where
  "spawnObjects E V a s =
     (case spawn_loop E V (objectsRef_current s) a (tick s) 0 [] of
        (t', totalAttempts, newObjects) \<Rightarrow> s\<lparr>spawned := spawned s @ newObjects, tick := t'\<rparr>)"

subsection \<open>Mouth and hand signals (lines 186--226 and 311--418)\<close>

text \<open>Lines 187--226; \<open>wristToThumb\<close> is computed there and never used.\<close>

definition isGunGesture :: "(nat \<Rightarrow> Landmark) \<Rightarrow> bool" where
  "isGunGesture landmarks =
     (let d = (\<lambda>i j. hypot (fst (landmarks i) - fst (landmarks j))
                          (snd (landmarks i) - snd (landmarks j)));
          wristToIndex = d 0 8;
          wristToMiddle = d 0 12;
          wristToRing = d 0 16;
          wristToPinky = d 0 20;
          isIndexExtended = (wristToIndex > 0.2);
          areOthersCurled = (wristToMiddle < wristToIndex * 0.6 \<and> wristToRing < wristToIndex * 0.6
                             \<and> wristToPinky < wristToIndex * 0.6)
      in isIndexExtended \<and> areOthersCurled)"

text \<open>Lines 312--331; \<open>None\<close> is a frame without a detected face.\<close>

definition mouth_logic :: "View \<Rightarrow> (nat \<Rightarrow> Landmark) option \<Rightarrow> MouthState" where
  "mouth_logic V face =
     (case face of
        None \<Rightarrow> \<lparr>mouthCenterX = 0, mouthCenterY = 0, isMouthOpen = False, mouthWidth = 0\<rparr>
      | Some landmarks \<Rightarrow>
          (let px = (\<lambda>i. (1 - fst (landmarks i)) * canvasWidth V);
               py = (\<lambda>i. snd (landmarks i) * canvasHeight V);
               mouthHeight = hypot (px 13 - px 14) (py 13 - py 14);
               mw = hypot (px 78 - px 308) (py 78 - py 308)
           in \<lparr>mouthCenterX = (px 13 + px 14) / 2, mouthCenterY = (py 13 + py 14) / 2,
               isMouthOpen = (mouthHeight > mw * 0.2), mouthWidth = mw\<rparr>))"

text \<open>Lines 349--370: the entry of \<open>handPositions\<close> for one hand.\<close>

definition hand_position :: "GameSettings \<Rightarrow> View \<Rightarrow> (nat \<rightharpoonup> HandPoint) \<Rightarrow> nat \<Rightarrow> (nat \<Rightarrow> Landmark) \<Rightarrow> HandPosition" where
  "hand_position st V prevHandPos handIndex landmarks =
     (let ix = (1 - fst (landmarks 8)) * canvasWidth V;
          iy = snd (landmarks 8) * canvasHeight V;
          tx = (1 - fst (landmarks 4)) * canvasWidth V;
          ty = snd (landmarks 4) * canvasHeight V;
          pinchX = (ix + tx) / 2;
          pinchY = (iy + ty) / 2;
          pinchDist = hypot (ix - tx) (iy - ty)
      in \<lparr>hx = pinchX, hy = pinchY, isPinching = (pinchDist < pinchThreshold st),
          isGun = isGunGesture landmarks, tipX = ix, tipY = iy,
          velocityY = (case prevHandPos handIndex of None \<Rightarrow> 0 | Some prevPos \<Rightarrow> pinchY - snd prevPos)\<rparr>)"

text \<open>Lines 395--401: a ball pulled out of the open mouth.\<close>

definition magician_spawn :: "Env \<Rightarrow> View \<Rightarrow> MouthState \<Rightarrow> nat \<Rightarrow> HandPosition \<Rightarrow> GameState \<Rightarrow> GameState" where
  "magician_spawn E V m handIndex hand s =
     (if isMouthOpen m \<and> isPinching hand \<and> \<not> wasPinchingRef s handIndex then
        (let distToMouth = hypot (hx hand - mouthCenterX m) (hy hand - mouthCenterY m)
         in if distToMouth < mouthWidth m * 2.0 then
              spawnObjects E V
                \<lparr>count = 1, argX = Some (hx hand), argY = Some (hy hand), argVx = Some 0,
                 argVy = Some 0, argRadius = Some 45, argColor = None,
                 argGrabbedBy = Some handIndex\<rparr> s
            else s)
      else s)"

text \<open>Lines 403--414: the shot of a hand in gun pose.\<close>

definition gun_shot :: "Env \<Rightarrow> View \<Rightarrow> HandPosition \<Rightarrow> GameState \<Rightarrow> GameState" where
  "gun_shot E V hand s =
     (if isGun hand then
        (if velocityY hand < - 15 then
           (let now = performanceNow E (tick s);
                s1 = s\<lparr>tick := tick s + 1\<rparr>
            in if now - lastShotTimeRef s1 > 300 then
                 (spawnObjects E V
                    \<lparr>count = 1, argX = Some (tipX hand), argY = Some (tipY hand), argVx = Some 0,
                     argVy = Some (- 25), argRadius = Some 10, argColor = Some ''#FFD700'',
                     argGrabbedBy = None\<rparr> s1)\<lparr>lastShotTimeRef := now\<rparr>
               else s1)
         else s)
      else s)"

text \<open>
  Lines 348--417: the body of \<open>handResult.landmarks.forEach\<close> for one hand, on the table
  \<open>handPositions\<close> built so far and the state.
\<close>

definition hand_iter :: "Env \<Rightarrow> GameSettings \<Rightarrow> View \<Rightarrow> MouthState \<Rightarrow> nat \<Rightarrow> (nat \<Rightarrow> Landmark) \<Rightarrow> HandPosition list \<times> GameState \<Rightarrow> HandPosition list \<times> GameState" where
  "hand_iter E st V m handIndex landmarks acc =
     (case acc of (handPositions, s) \<Rightarrow>
        (let hand = hand_position st V (prevHandPosRef s) handIndex landmarks;
             s1 = magician_spawn E V m handIndex hand s;
             s2 = gun_shot E V hand s1
         in (handPositions @ [hand],
             s2\<lparr>wasPinchingRef := (wasPinchingRef s2)(handIndex := isPinching hand)\<rparr>)))"

text \<open>
  The \<open>forEach\<close> itself, from hand index \<open>handIndex\<close> on. A missing \<open>handResult\<close> is the
  empty list of hands: the loop is skipped and \<open>handPositions\<close> stays empty.
\<close>

fun hand_logic_prep :: "Env \<Rightarrow> GameSettings \<Rightarrow> View \<Rightarrow> MouthState \<Rightarrow> nat \<Rightarrow> (nat \<Rightarrow> Landmark) list \<Rightarrow> HandPosition list \<times> GameState \<Rightarrow> HandPosition list \<times> GameState" where
  "hand_logic_prep E st V m handIndex [] acc = acc"
| "hand_logic_prep E st V m handIndex (landmarks # rest) acc =
     hand_logic_prep E st V m (Suc handIndex) rest (hand_iter E st V m handIndex landmarks acc)"

subsection \<open>Two-hand double grab (lines 425--465)\<close>

text \<open>
  The test of line 442: both pinch points are within \<open>radius + 40\<close>, or one hand holds the
  object and the other is within reach.
\<close>

definition double_grab_qualifies :: "HandPosition \<Rightarrow> HandPosition \<Rightarrow> PhysicsObject \<Rightarrow> bool" where
  "double_grab_qualifies h0 h1 obj =
     (let d0 = hypot (x obj - hx h0) (y obj - hy h0);
          d1 = hypot (x obj - hx h1) (y obj - hy h1);
          grabRadius = radius obj + 40;
          isHeldBy0 = (isGrabbed obj \<and> grabbedByHandIndex obj = Some 0);
          isHeldBy1 = (isGrabbed obj \<and> grabbedByHandIndex obj = Some 1)
      in (d0 < grabRadius \<and> d1 < grabRadius) \<or> (isHeldBy0 \<and> d1 < grabRadius)
           \<or> (isHeldBy1 \<and> d0 < grabRadius))"

text \<open>Lines 454--462: the resize of a jointly held object, with its two clamps in order.\<close>

definition resize :: "HandPosition \<Rightarrow> HandPosition \<Rightarrow> HandPoint \<Rightarrow> HandPoint \<Rightarrow> PhysicsObject \<Rightarrow> PhysicsObject" where
  "resize h0 h1 prevH0 prevH1 obj =
     (let currentDist = hypot (hx h1 - hx h0) (hy h1 - hy h0);
          prevDist = hypot (fst prevH1 - fst prevH0) (snd prevH1 - snd prevH0);
          delta = currentDist - prevDist;
          r1 = radius obj + delta * 0.6;
          r2 = (if r1 < 15 then 15 else r1);
          r3 = (if r2 > 150 then 150 else r2)
      in obj\<lparr>radius := r3\<rparr>)"

text \<open>Lines 446--462: what the double grab does to one qualifying object.\<close>

definition force_shared :: "HandPosition \<Rightarrow> HandPosition \<Rightarrow> (nat \<rightharpoonup> HandPoint) \<Rightarrow> PhysicsObject \<Rightarrow> PhysicsObject" where
  "force_shared h0 h1 prevHandPos obj =
     (let o1 = obj\<lparr>isGrabbed := True, grabbedByHandIndex := None,
                    x := (hx h0 + hx h1) / 2, y := (hy h0 + hy h1) / 2,
                    vx := 0, vy := 0\<rparr>
      in case prevHandPos 0 of
           None \<Rightarrow> o1
         | Some prevH0 \<Rightarrow>
             (case prevHandPos 1 of
                None \<Rightarrow> o1
              | Some prevH1 \<Rightarrow> resize h0 h1 prevH0 prevH1 o1))"

definition double_grab_obj :: "HandPosition \<Rightarrow> HandPosition \<Rightarrow> (nat \<rightharpoonup> HandPoint) \<Rightarrow> PhysicsObject \<Rightarrow> PhysicsObject" where
  "double_grab_obj h0 h1 prevHandPos obj =
     (if double_grab_qualifies h0 h1 obj then force_shared h0 h1 prevHandPos obj else obj)"

text \<open>
  Lines 425--465: the set \<open>currentDoubleGrabs\<close> and the objects after the pass. The
  \<open>forEach\<close> treats every object on its own, so it is a \<open>map\<close>.
\<close>

definition both_pinching :: "HandPosition list \<Rightarrow> bool" where
  "both_pinching handPositions =
     (2 \<le> length handPositions \<and> isPinching (handPositions ! 0) \<and> isPinching (handPositions ! 1))"

definition currentDoubleGrabs :: "HandPosition list \<Rightarrow> PhysicsObject list \<Rightarrow> real set" where
  "currentDoubleGrabs handPositions objs =
     (if both_pinching handPositions then
        set (map obj_id (filter (double_grab_qualifies (handPositions ! 0) (handPositions ! 1)) objs))
      else {})"

definition double_grab_step :: "HandPosition list \<Rightarrow> GameState \<Rightarrow> GameState" where
  "double_grab_step handPositions s =
     (if both_pinching handPositions then
        s\<lparr>objects := map (double_grab_obj (handPositions ! 0) (handPositions ! 1) (prevHandPosRef s))
                         (objects s)\<rparr>
      else s)"

subsection \<open>Single-hand grab, drag and release (lines 468--512)\<close>

text \<open>Lines 478--499: one object under a pinching hand that has a previous position.\<close>

definition single_hand_obj :: "GameSettings \<Rightarrow> real set \<Rightarrow> nat \<Rightarrow> HandPosition \<Rightarrow> HandPoint \<Rightarrow> PhysicsObject \<Rightarrow> PhysicsObject" where
  "single_hand_obj st dg handIndex hand prevPos obj =
     (let handVx = hx hand - fst prevPos;
          handVy = hy hand - snd prevPos
      in if obj_id obj \<in> dg then obj
         else if isGrabbed obj \<and> grabbedByHandIndex obj = Some handIndex then
           obj\<lparr>x := hx hand, y := hy hand, vx := handVx * throwForce st, vy := handVy * throwForce st\<rparr>
         else if isGrabbed obj \<and> grabbedByHandIndex obj \<noteq> None
                 \<and> grabbedByHandIndex obj \<noteq> Some handIndex then obj
         else if hypot (x obj - hx hand) (y obj - hy hand) < radius obj + 40 then
           obj\<lparr>isGrabbed := True, grabbedByHandIndex := Some handIndex\<rparr>
         else obj)"

text \<open>Lines 502--509: one object under a hand that does not pinch.\<close>

definition release_obj :: "real set \<Rightarrow> nat \<Rightarrow> PhysicsObject \<Rightarrow> PhysicsObject" where
  "release_obj dg handIndex obj =
     (if isGrabbed obj \<and> grabbedByHandIndex obj = Some handIndex then
        (if obj_id obj \<notin> dg then obj\<lparr>isGrabbed := False, grabbedByHandIndex := None\<rparr> else obj)
      else obj)"

text \<open>
  Lines 470--510 for one hand. \<open>handPositions[handIndex]\<close> was set for every detected hand,
  so only a missing previous position makes the callback return at line 472.
\<close>

definition single_hand_iter :: "GameSettings \<Rightarrow> real set \<Rightarrow> (nat \<rightharpoonup> HandPoint) \<Rightarrow> nat \<Rightarrow> HandPosition \<Rightarrow> PhysicsObject list \<Rightarrow> PhysicsObject list" where
  "single_hand_iter st dg prevHandPos handIndex hand objs =
     (case prevHandPos handIndex of
        None \<Rightarrow> objs
      | Some prevPos \<Rightarrow>
          (if isPinching hand then map (single_hand_obj st dg handIndex hand prevPos) objs
           else map (release_obj dg handIndex) objs))"

fun single_hand_forEach :: "GameSettings \<Rightarrow> real set \<Rightarrow> (nat \<rightharpoonup> HandPoint) \<Rightarrow> nat \<Rightarrow> HandPosition list \<Rightarrow> PhysicsObject list \<Rightarrow> PhysicsObject list" where
  "single_hand_forEach st dg prevHandPos handIndex [] objs = objs"
| "single_hand_forEach st dg prevHandPos handIndex (hand # rest) objs =
     single_hand_forEach st dg prevHandPos (Suc handIndex) rest
       (single_hand_iter st dg prevHandPos handIndex hand objs)"

definition single_hand_logic :: "GameSettings \<Rightarrow> real set \<Rightarrow> HandPosition list \<Rightarrow> GameState \<Rightarrow> GameState" where
  "single_hand_logic st dg handPositions s =
     s\<lparr>objects := single_hand_forEach st dg (prevHandPosRef s) 0 handPositions (objects s)\<rparr>"

subsection \<open>Stale shared grabs and previous hand positions (lines 514--528)\<close>

definition cleanup_obj :: "real set \<Rightarrow> PhysicsObject \<Rightarrow> PhysicsObject" where
  "cleanup_obj dg obj =
     (if grabbedByHandIndex obj = None \<and> isGrabbed obj then
        (if obj_id obj \<notin> dg then obj\<lparr>isGrabbed := False\<rparr> else obj)
      else obj)"

definition stale_cleanup :: "real set \<Rightarrow> GameState \<Rightarrow> GameState" where
  "stale_cleanup dg s = s\<lparr>objects := map (cleanup_obj dg) (objects s)\<rparr>"

definition update_prev :: "HandPosition list \<Rightarrow> GameState \<Rightarrow> GameState" where
  "update_prev handPositions s =
     (let p0 = (if 0 < length handPositions
                then (prevHandPosRef s)(0 \<mapsto> (hx (handPositions ! 0), hy (handPositions ! 0)))
                else prevHandPosRef s);
          p1 = (if 1 < length handPositions
                then p0(1 \<mapsto> (hx (handPositions ! 1), hy (handPositions ! 1)))
                else p0)
      in s\<lparr>prevHandPosRef := p1\<rparr>)"

subsection \<open>The interaction part of a frame (lines 344--528)\<close>

text \<open>
  The statements of the frame in the order of the source: the per-hand preparation with its
  two spawns, the double grab, the single-hand logic, the cleanup, the previous positions.
  The result carries \<open>handPositions\<close> and \<open>currentDoubleGrabs\<close> of the frame.
\<close>

definition grab_resolution :: "GameSettings \<Rightarrow> HandPosition list \<Rightarrow> GameState \<Rightarrow> real set \<times> GameState" where
  "grab_resolution st handPositions s =
     (let dg = currentDoubleGrabs handPositions (objects s);
          s2 = double_grab_step handPositions s;
          s3 = single_hand_logic st dg handPositions s2;
          s4 = stale_cleanup dg s3
      in (dg, s4))"

definition interaction :: "Env \<Rightarrow> GameSettings \<Rightarrow> View \<Rightarrow> MouthState \<Rightarrow> (nat \<Rightarrow> Landmark) list \<Rightarrow> GameState \<Rightarrow> HandPosition list \<times> real set \<times> GameState" where
  "interaction E st V m hands s =
     (case hand_logic_prep E st V m 0 hands ([], s) of
        (handPositions, s1) \<Rightarrow>
          (case grab_resolution st handPositions s1 of
             (dg, s4) \<Rightarrow> (handPositions, dg, update_prev handPositions s4)))"

subsection \<open>The interaction in the order of the specification\<close>





subsection \<open>Pairwise collisions (lines 530--596)\<close>

text \<open>\<open>Math.atan2(b, a)\<close> over the reals (no signed zeros).\<close>

definition atan2 :: "real \<Rightarrow> real \<Rightarrow> real" where
  "atan2 b a =
     (if 0 < a then arctan (b / a)
      else if a < 0 then (if 0 \<le> b then arctan (b / a) + pi else arctan (b / a) - pi)
      else if 0 < b then pi / 2
      else if b < 0 then - pi / 2
      else 0)"

text \<open>Lines 562--591: separation and velocity exchange of an overlapping pair.\<close>

definition bounce_pair :: "GameSettings \<Rightarrow> PhysicsObject \<Rightarrow> PhysicsObject \<Rightarrow> PhysicsObject \<times> PhysicsObject" where
  "bounce_pair st o1 o2 =
     (let dx = x o2 - x o1;
          dy = y o2 - y o1;
          dist = hypot dx dy;
          minDist = radius o1 + radius o2;
          angle = atan2 dy dx;
          sn = sin angle;
          cs = cos angle;
          overlap = (minDist - dist) + 1;
          separationX = (overlap / 2) * cos angle;
          separationY = (overlap / 2) * sin angle;
          vx1 = vx o1 * cs + vy o1 * sn;
          vy1 = vy o1 * cs - vx o1 * sn;
          vx2 = vx o2 * cs + vy o2 * sn;
          vy2 = vy o2 * cs - vx o2 * sn;
          vx1Final = ((radius o1 - radius o2) * vx1 + 2 * radius o2 * vx2) / (radius o1 + radius o2);
          vx2Final = ((radius o2 - radius o1) * vx2 + 2 * radius o1 * vx1) / (radius o1 + radius o2);
          bounceFactor = bounce st
      in (o1\<lparr>x := x o1 - separationX, y := y o1 - separationY,
              vx := (vx1Final * cs - vy1 * sn) * bounceFactor,
              vy := (vy1 * cs + vx1Final * sn) * bounceFactor\<rparr>,
          o2\<lparr>x := x o2 + separationX, y := y o2 + separationY,
              vx := (vx2Final * cs - vy2 * sn) * bounceFactor,
              vy := (vy2 * cs + vx2Final * sn) * bounceFactor\<rparr>))"

text \<open>Lines 553--560: the two objects after a fusion, and the id scheduled for removal.\<close>

definition fuse_pair :: "PhysicsObject \<Rightarrow> PhysicsObject \<Rightarrow> PhysicsObject \<times> PhysicsObject \<times> real" where
  "fuse_pair o1 o2 =
     (if radius o1 \<ge> radius o2 then (o1\<lparr>radius := radius o1 + radius o2 * 0.4\<rparr>, o2, obj_id o2)
      else (o1, o2\<lparr>radius := radius o2 + radius o1 * 0.4\<rparr>, obj_id o1))"

text \<open>
  Lines 547--551. \<open>performance.now()\<close> is read first; \<open>Math.random()\<close> is called only when
  \<open>fusionChance > 0\<close> (\<open>&&\<close> evaluates from the left). The result is \<open>canFuse\<close> and the counter.
\<close>

definition canFuse :: "GameSettings \<Rightarrow> Env \<Rightarrow> nat \<Rightarrow> PhysicsObject \<Rightarrow> PhysicsObject \<Rightarrow> bool \<times> nat" where
  "canFuse st E t o1 o2 =
     (let now = performanceNow E t
      in if fusionChance st > 0 then
           (mathRandom E (t + 1) < fusionChance st
              \<and> now - createdAt o1 > 2000 \<and> now - createdAt o2 > 2000, t + 2)
         else (False, t + 1))"

text \<open>
  Lines 534--593: the body of the inner loop for the indices \<open>i < j\<close>. The two elements are
  mutated in place, which is \<open>list_update\<close> at \<open>i\<close> and at \<open>j\<close>.
\<close>

definition collide_pair :: "GameSettings \<Rightarrow> Env \<Rightarrow> nat \<Rightarrow> nat \<Rightarrow> GameState \<Rightarrow> GameState" where
  "collide_pair st E i j s =
     (let o1 = objects s ! i;
          o2 = objects s ! j
      in if isGrabbed o1 \<or> isGrabbed o2 then s
         else if obj_id o1 \<in> objectsToRemove s \<or> obj_id o2 \<in> objectsToRemove s then s
         else
           (let dx = x o2 - x o1;
                dy = y o2 - y o1;
                dist = hypot dx dy;
                minDist = radius o1 + radius o2
            in if dist < minDist then
                 (case canFuse st E (tick s) o1 o2 of
                    (True, t') \<Rightarrow>
                      (case fuse_pair o1 o2 of
                         (o1', o2', gone) \<Rightarrow>
                           s\<lparr>objects := (objects s)[i := o1', j := o2'],
                             objectsToRemove := insert gone (objectsToRemove s), tick := t'\<rparr>)
                  | (False, t') \<Rightarrow>
                      (case bounce_pair st o1 o2 of
                         (o1', o2') \<Rightarrow> s\<lparr>objects := (objects s)[i := o1', j := o2'], tick := t'\<rparr>))
               else s))"

text \<open>
  The two \<open>for\<close> loops of lines 532--533. The loop body never changes the length of the
  array, so \<open>objects.length\<close> is the length at the start of the pass.
\<close>

definition collision_inner :: "GameSettings \<Rightarrow> Env \<Rightarrow> nat \<Rightarrow> nat \<Rightarrow> GameState \<Rightarrow> GameState" where
  "collision_inner st E n i s = fold (collide_pair st E i) [i + 1 ..< n] s"

definition collision_pass :: "GameSettings \<Rightarrow> Env \<Rightarrow> GameState \<Rightarrow> GameState" where
  "collision_pass st E s =
     (if enableCollisions st
      then fold (collision_inner st E (length (objects s))) [0 ..< length (objects s)] s
      else s)"

subsection \<open>Movement, eating and removal (lines 598--641)\<close>

text \<open>Lines 603--607: gravity, the step along the velocity, friction, one assignment after the other.\<close>

definition free_flight :: "GameSettings \<Rightarrow> PhysicsObject \<Rightarrow> PhysicsObject" where
  "free_flight st obj =
     (let o1 = obj\<lparr>vy := vy obj + gravity st\<rparr>;
          o2 = o1\<lparr>x := x o1 + vx o1\<rparr>;
          o3 = o2\<lparr>y := y o2 + vy o2\<rparr>;
          o4 = o3\<lparr>vx := vx o3 * friction st\<rparr>
      in o4\<lparr>vy := vy o4 * friction st\<rparr>)"

text \<open>Lines 610--625: the four wall tests, in the order of the source.\<close>

definition wall_left :: "GameSettings \<Rightarrow> PhysicsObject \<Rightarrow> PhysicsObject" where
  "wall_left st obj =
     (if x obj - radius obj < 0 then obj\<lparr>x := radius obj, vx := \<bar>vx obj\<bar> * bounce st\<rparr> else obj)"

definition wall_right :: "GameSettings \<Rightarrow> View \<Rightarrow> PhysicsObject \<Rightarrow> PhysicsObject" where
  "wall_right st V obj =
     (if x obj + radius obj > canvasWidth V
      then obj\<lparr>x := canvasWidth V - radius obj, vx := - \<bar>vx obj\<bar> * bounce st\<rparr> else obj)"

definition wall_top :: "GameSettings \<Rightarrow> PhysicsObject \<Rightarrow> PhysicsObject" where
  "wall_top st obj =
     (if y obj - radius obj < 0 then obj\<lparr>y := radius obj, vy := \<bar>vy obj\<bar> * bounce st\<rparr> else obj)"

definition wall_bottom :: "GameSettings \<Rightarrow> View \<Rightarrow> PhysicsObject \<Rightarrow> PhysicsObject" where
  "wall_bottom st V obj =
     (if y obj + radius obj > canvasHeight V
      then obj\<lparr>y := canvasHeight V - radius obj, vy := - \<bar>vy obj\<bar> * bounce st\<rparr> else obj)"

text \<open>Lines 603--625: what a frame does to the kinematics of an object that is not grabbed.\<close>

definition integrate :: "GameSettings \<Rightarrow> View \<Rightarrow> PhysicsObject \<Rightarrow> PhysicsObject" where
  "integrate st V obj =
     wall_bottom st V (wall_top st (wall_right st V (wall_left st (free_flight st obj))))"

text \<open>
  Lines 629--634 on the object after its movement: does the mouth eat it? The clock is read
  only when the mouth is open and the object is not grabbed.
\<close>

definition eaten :: "Env \<Rightarrow> MouthState \<Rightarrow> nat \<Rightarrow> PhysicsObject \<Rightarrow> bool \<times> nat" where
  "eaten E m t obj =
     (if isMouthOpen m \<and> \<not> isGrabbed obj then
        (if performanceNow E t - createdAt obj > 2000 then
           (let distToMouth = hypot (x obj - mouthCenterX m) (y obj - mouthCenterY m)
            in (distToMouth < mouthWidth m / 2, t + 1))
         else (False, t + 1))
      else (False, t))"

text \<open>
  Lines 599--637 for one object: the object, the removal set and the counter after it. An
  object that is not skipped at line 600 is drawn at line 636, and \<open>drawBlob\<close> reads the clock
  once (line 232).
\<close>

definition move_eat_one :: "GameSettings \<Rightarrow> Env \<Rightarrow> View \<Rightarrow> MouthState \<Rightarrow> PhysicsObject \<Rightarrow> real set \<Rightarrow> nat \<Rightarrow> PhysicsObject \<times> real set \<times> nat" where
  "move_eat_one st E V m obj rem t =
     (if obj_id obj \<in> rem then (obj, rem, t)
      else
        (let obj' = (if \<not> isGrabbed obj then integrate st V obj else obj)
         in case eaten E m t obj' of
              (True, t') \<Rightarrow> (obj', insert (obj_id obj') rem, t' + 1)
            | (False, t') \<Rightarrow> (obj', rem, t' + 1)))"

fun move_eat_forEach :: "GameSettings \<Rightarrow> Env \<Rightarrow> View \<Rightarrow> MouthState \<Rightarrow> PhysicsObject list \<Rightarrow> real set \<Rightarrow> nat \<Rightarrow> PhysicsObject list \<times> real set \<times> nat" where
  "move_eat_forEach st E V m [] rem t = ([], rem, t)"
| "move_eat_forEach st E V m (obj # rest) rem t =
     (case move_eat_one st E V m obj rem t of
        (obj', rem', t') \<Rightarrow>
          (case move_eat_forEach st E V m rest rem' t' of
             (objs', rem'', t'') \<Rightarrow> (obj' # objs', rem'', t'')))"

definition movement_eating :: "GameSettings \<Rightarrow> Env \<Rightarrow> View \<Rightarrow> MouthState \<Rightarrow> GameState \<Rightarrow> GameState" where
  "movement_eating st E V m s =
     (case move_eat_forEach st E V m (objects s) (objectsToRemove s) (tick s) of
        (objs', rem', t') \<Rightarrow> s\<lparr>objects := objs', objectsToRemove := rem', tick := t'\<rparr>)"

text \<open>
  Lines 639--641: \<open>objectsRef.current\<close>, that is \<open>objects\<close> followed by \<open>spawned\<close>, is filtered
  once.
\<close>

definition apply_removals :: "GameState \<Rightarrow> GameState" where
  "apply_removals s =
     (if objectsToRemove s \<noteq> {} then
        s\<lparr>objects := filter (\<lambda>ob. obj_id ob \<notin> objectsToRemove s) (objects s),
          spawned := filter (\<lambda>ob. obj_id ob \<notin> objectsToRemove s) (spawned s)\<rparr>
      else s)"

subsection \<open>One frame (\<open>loop\<close>, lines 262--644)\<close>

text \<open>
  A frame of a running game: canvas, video and both landmarkers are there (otherwise \<open>loop\<close>
  only schedules the next frame, lines 263--266). The detected hands and the detected face are
  inputs; a frame without detection (camera off, or \<open>detectForVideo\<close> threw) has no hands and no
  face. Line 300 reads the clock, line 341 makes the empty removal set, line 342 captures the
  array of the store.
\<close>

definition begin_frame :: "GameState \<Rightarrow> GameState" where
  "begin_frame s =
     s\<lparr>objects := objectsRef_current s, spawned := [], objectsToRemove := {}, tick := tick s + 1\<rparr>"

definition physics :: "GameSettings \<Rightarrow> Env \<Rightarrow> View \<Rightarrow> MouthState \<Rightarrow> GameState \<Rightarrow> GameState" where
  "physics st E V m s = apply_removals (movement_eating st E V m (collision_pass st E s))"

definition loop :: "Env \<Rightarrow> GameSettings \<Rightarrow> View \<Rightarrow> (nat \<Rightarrow> Landmark) list \<Rightarrow> (nat \<Rightarrow> Landmark) option \<Rightarrow> GameState \<Rightarrow> GameState" where
  "loop E st V hands face s =
     (let m = mouth_logic V face
      in case interaction E st V m hands (begin_frame s) of
           (handPositions, dg, s5) \<Rightarrow> physics st E V m s5)"

subsection \<open>Concrete values for runs of the model\<close>

text \<open>\<open>INITIAL_SETTINGS\<close> of lines 16--28.\<close>

definition INITIAL_SETTINGS :: GameSettings where
  "INITIAL_SETTINGS =
     \<lparr>gravity = 0, friction = 0.995, bounce = 0.9, pinchThreshold = 60, throwForce = 1.5,
      handColor = ''#00ff9d'', showSkeleton = True, debug = False, enableCollisions = True,
      fusionChance = 0, blobFactor = 5\<rparr>"

text \<open>
  Inputs of the examples below: a free ball at rest created at time 0, a world whose random
  draws are all \<open>r\<close> and whose clocks all read \<open>now\<close>, a 1280 by 720 view, a hand given by its
  pinch point, and a state that holds nothing but the given objects.
\<close>

definition ball :: "real \<Rightarrow> real \<Rightarrow> real \<Rightarrow> real \<Rightarrow> PhysicsObject" where
  "ball i px py r =
     \<lparr>obj_id = i, x = px, y = py, vx = 0, vy = 0, radius = r, color = ''#f43f5e'',
      isGrabbed = False, grabbedByHandIndex = None, wobblePhase = 0, createdAt = 0\<rparr>"

definition steady_env :: "real \<Rightarrow> real \<Rightarrow> Env" where
  "steady_env r now = \<lparr>mathRandom = (\<lambda>k. r), dateNow = (\<lambda>k. now), performanceNow = (\<lambda>k. now)\<rparr>"

definition view_720p :: View where
  "view_720p = \<lparr>innerWidth = 1280, innerHeight = 720, canvasWidth = 1280, canvasHeight = 720\<rparr>"

definition hand_at :: "real \<Rightarrow> real \<Rightarrow> bool \<Rightarrow> HandPosition" where
  "hand_at px py pinching =
     \<lparr>hx = px, hy = py, isPinching = pinching, isGun = False, tipX = px, tipY = py, velocityY = 0\<rparr>"

definition state_of :: "PhysicsObject list \<Rightarrow> GameState" where
  "state_of objs =
     \<lparr>objects = objs, spawned = [], objectsToRemove = {}, wasPinchingRef = (\<lambda>h. False),
      lastShotTimeRef = 0, prevHandPosRef = Map.empty, tick = 0\<rparr>"

definition gun_hand :: "real \<Rightarrow> real \<Rightarrow> real \<Rightarrow> HandPosition" where
  "gun_hand px py vel =
     \<lparr>hx = px, hy = py, isPinching = False, isGun = True, tipX = px, tipY = py, velocityY = vel\<rparr>"


definition three_in_a_row :: GameState where
  "three_in_a_row = state_of [ball 1 0 0 10, ball 2 10 0 10, ball 3 20 0 10]"

text \<open>
  A hand whose landmarks all lie in one normalised point (it pinches and is not in gun pose),
  and a state in which hand 0 was seen before at a given pinch point.
\<close>

definition pinch_landmarks :: "real \<Rightarrow> real \<Rightarrow> nat \<Rightarrow> Landmark" where
  "pinch_landmarks lx ly = (\<lambda>i. (lx, ly))"

definition seen_at :: "real \<Rightarrow> real \<Rightarrow> GameState \<Rightarrow> GameState" where
  "seen_at px py s = s\<lparr>prevHandPosRef := [0 \<mapsto> (px, py)]\<rparr>"


text \<open>The arguments of a call \<open>spawnObjects(n)\<close>.\<close>

definition plain_spawn :: "nat \<Rightarrow> SpawnArgs" where
  "plain_spawn n =
     \<lparr>count = n, argX = None, argY = None, argVx = None, argVy = None, argRadius = None,
      argColor = None, argGrabbedBy = None\<rparr>"


definition same_ms_env :: Env where
  "same_ms_env = \<lparr>mathRandom = (\<lambda>k. if k = 11 then 1/2 else 0), dateNow = (\<lambda>k. 1),
                   performanceNow = (\<lambda>k. 0)\<rparr>"

subsection \<open>Vocabulary of the properties\<close>

text \<open>
  Two objects keep the spawn margin: their centres are at least the sum of the radii plus
  5 px apart. A batch is well placed when each of its objects keeps the margin to every
  existing object and to every earlier object of the batch.
\<close>

definition apart :: "PhysicsObject \<Rightarrow> PhysicsObject \<Rightarrow> bool" where
  "apart a b = (radius a + radius b + 5 \<le> hypot (x a - x b) (y a - y b))"

definition well_placed :: "PhysicsObject list \<Rightarrow> PhysicsObject list \<Rightarrow> bool" where
  "well_placed existing new =
     ((\<forall>ob\<in>set new. \<forall>e\<in>set existing. apart e ob) \<and> sorted_wrt apart new)"


text \<open>
  What a spawn of the hand loop may leave in the grab fields of a new object when the hands
  have the indices below \<open>n\<close>: no owner and not grabbed, or grabbed by one of these hands.
\<close>

definition spawn_ok :: "nat \<Rightarrow> PhysicsObject \<Rightarrow> bool" where
  "spawn_ok n ob =
     (case grabbedByHandIndex ob of None \<Rightarrow> \<not> isGrabbed ob | Some k \<Rightarrow> isGrabbed ob \<and> k < n)"

text \<open>
  The single-hand logic and the whole grab resolution as one object goes through them: every
  \<open>forEach\<close> of lines 432--524 treats the objects one by one, and the only thing shared between
  them is the set \<open>currentDoubleGrabs\<close>.
\<close>

definition hand_obj :: "GameSettings \<Rightarrow> real set \<Rightarrow> (nat \<rightharpoonup> HandPoint) \<Rightarrow> nat \<Rightarrow> HandPosition \<Rightarrow> PhysicsObject \<Rightarrow> PhysicsObject" where
  "hand_obj st dg prevHandPos handIndex hand obj =
     (case prevHandPos handIndex of
        None \<Rightarrow> obj
      | Some prevPos \<Rightarrow>
          (if isPinching hand then single_hand_obj st dg handIndex hand prevPos obj
           else release_obj dg handIndex obj))"

fun hands_obj :: "GameSettings \<Rightarrow> real set \<Rightarrow> (nat \<rightharpoonup> HandPoint) \<Rightarrow> nat \<Rightarrow> HandPosition list \<Rightarrow> PhysicsObject \<Rightarrow> PhysicsObject" where
  "hands_obj st dg prevHandPos handIndex [] obj = obj"
| "hands_obj st dg prevHandPos handIndex (hand # rest) obj =
     hands_obj st dg prevHandPos (Suc handIndex) rest (hand_obj st dg prevHandPos handIndex hand obj)"

definition resolve_obj :: "GameSettings \<Rightarrow> HandPosition list \<Rightarrow> (nat \<rightharpoonup> HandPoint) \<Rightarrow> real set \<Rightarrow> PhysicsObject \<Rightarrow> PhysicsObject" where
  "resolve_obj st handPositions prevHandPos dg obj =
     cleanup_obj dg (hands_obj st dg prevHandPos 0 handPositions
       (if both_pinching handPositions
        then double_grab_obj (handPositions ! 0) (handPositions ! 1) prevHandPos obj else obj))"


definition grabbedBy :: "nat \<Rightarrow> PhysicsObject \<Rightarrow> bool" where
  "grabbedBy h obj = (isGrabbed obj \<and> grabbedByHandIndex obj = Some h)"

definition sharedGrab :: "PhysicsObject \<Rightarrow> bool" where
  "sharedGrab obj = (isGrabbed obj \<and> grabbedByHandIndex obj = None)"



text \<open>The centre of an object is within reach of a pinch point (the test of lines 494--495).\<close>

definition near_hand :: "HandPosition \<Rightarrow> PhysicsObject \<Rightarrow> bool" where
  "near_hand hand obj = (hypot (x obj - hx hand) (y obj - hy hand) < radius obj + 40)"

section \<open>Properties\<close>

subsection \<open>Distances\<close>

lemma hypot_zero_right: "hypot a 0 = \<bar>a\<bar>"
  by (simp add: hypot_def)

lemma hypot_zero_left: "hypot 0 b = \<bar>b\<bar>"
  by (simp add: hypot_def)

lemma hypot_nonneg: "0 \<le> hypot a b"
  by (simp add: hypot_def)

lemma radius_resize:
  "radius (resize h0 h1 p0 p1 obj) =
     min 150 (max 15 (radius obj
        + (hypot (hx h1 - hx h0) (hy h1 - hy h0) - hypot (fst p1 - fst p0) (snd p1 - snd p0)) * 0.6))"
  by (simp add: resize_def Let_def min_def max_def)

subsection \<open>Resize of a jointly held object\<close>

text \<open>
  C5. When the double grab takes an object while both previous pinch points are known (the
  resize of lines 456--462 runs), the new radius is the old one plus 0.6 times the change of
  the distance between the two pinch points, clamped: it always lies in \<open>[15, 150]\<close>, and
  where no clamp applies the radius changes by exactly 0.6 times that change.
\<close>

theorem shared_grab_resize:
  assumes "double_grab_qualifies h0 h1 obj"
    and "prevHandPos 0 = Some p0" and "prevHandPos 1 = Some p1"
  shows "(let delta = hypot (hx h1 - hx h0) (hy h1 - hy h0) - hypot (fst p1 - fst p0) (snd p1 - snd p0);
              r' = radius (double_grab_obj h0 h1 prevHandPos obj)
          in r' = min 150 (max 15 (radius obj + delta * 0.6))
             \<and> 15 \<le> r' \<and> r' \<le> 150
             \<and> (15 \<le> radius obj + delta * 0.6 \<and> radius obj + delta * 0.6 \<le> 150
                  \<longrightarrow> r' - radius obj = delta * 0.6))"
proof -
  define delta where
    "delta = hypot (hx h1 - hx h0) (hy h1 - hy h0) - hypot (fst p1 - fst p0) (snd p1 - snd p0)"
  define r' where "r' = radius (double_grab_obj h0 h1 prevHandPos obj)"
  have "r' = radius (resize h0 h1 p0 p1 (obj\<lparr>isGrabbed := True, grabbedByHandIndex := None,
                    x := (hx h0 + hx h1) / 2, y := (hy h0 + hy h1) / 2, vx := 0, vy := 0\<rparr>))"
    using assms by (simp add: r'_def double_grab_obj_def force_shared_def)
  then have eq: "r' = min 150 (max 15 (radius obj + delta * 0.6))"
    by (simp only: radius_resize delta_def) simp
  have "15 \<le> r'" "r' \<le> 150"
    using eq by (simp_all add: min_def max_def)
  moreover have "r' - radius obj = delta * 0.6"
    if "15 \<le> radius obj + delta * 0.6" "radius obj + delta * 0.6 \<le> 150"
    using eq that by (simp add: min_def max_def)
  ultimately show ?thesis
    using eq unfolding Let_def delta_def [symmetric] r'_def [symmetric] by blast
qed

theorem shared_grab_resize_witness:
  "radius (double_grab_obj (hand_at 0 0 True) (hand_at 200 0 True) [0 \<mapsto> (0, 0), 1 \<mapsto> (180, 0)]
             (ball 1 100 0 70)) = 82"
  using shared_grab_resize
    [of "hand_at 0 0 True" "hand_at 200 0 True" "ball 1 100 0 70"
        "[0 \<mapsto> (0, 0), 1 \<mapsto> (180, 0)]" "(0, 0)" "(180, 0)"]
  by (simp add: double_grab_qualifies_def hypot_zero_right Let_def hand_at_def ball_def)

subsection \<open>Helper facts\<close>

lemma fold_invariant:
  assumes "\<And>a s. P s \<Longrightarrow> P (f a s)" and "P s"
  shows "P (fold f xs s)"
  using assms(2) by (induction xs arbitrary: s) (simp_all add: assms(1))

lemma map_update_same: "(map f xs)[i := f (xs ! i)] = map f xs"
proof (cases "i < length xs")
  case True
  then show ?thesis by (simp add: list_update_same_conv)
next
  case False
  then have "length (map f xs) \<le> i" by simp
  then show ?thesis by (rule list_update_beyond)
qed

lemma map_update2_same:
  assumes "f a = f (xs ! i)" and "f b = f (xs ! j)"
  shows "map f (xs[i := a, j := b]) = map f xs"
proof -
  have "map f (xs[i := a, j := b]) = ((map f xs)[i := f (xs ! i)])[j := f (xs ! j)]"
    by (simp add: map_update assms)
  also have "\<dots> = map f xs"
    by (simp only: map_update_same)
  finally show ?thesis .
qed

lemma radius_bounce_pair:
  "radius (fst (bounce_pair st o1 o2)) = radius o1" "radius (snd (bounce_pair st o1 o2)) = radius o2"
  by (simp_all add: bounce_pair_def Let_def)

lemma canFuse_off: "fusionChance st = 0 \<Longrightarrow> fst (canFuse st E t o1 o2) = False"
  by (simp add: canFuse_def Let_def)

lemma collide_pair_no_fusion:
  assumes "fusionChance st = 0"
  shows "objectsToRemove (collide_pair st E i j s) = objectsToRemove s
         \<and> map radius (objects (collide_pair st E i j s)) = map radius (objects s)"
proof -
  obtain t' where cf: "canFuse st E (tick s) (objects s ! i) (objects s ! j) = (False, t')"
    using canFuse_off [OF assms, of E "tick s" "objects s ! i" "objects s ! j"]
    by (cases "canFuse st E (tick s) (objects s ! i) (objects s ! j)") simp
  obtain a b where bp: "bounce_pair st (objects s ! i) (objects s ! j) = (a, b)"
    by (cases "bounce_pair st (objects s ! i) (objects s ! j)")
  have "radius a = radius (objects s ! i)" "radius b = radius (objects s ! j)"
    using radius_bounce_pair [of st "objects s ! i" "objects s ! j"] bp by simp_all
  then have "map radius ((objects s)[i := a, j := b]) = map radius (objects s)"
    by (rule map_update2_same)
  then show ?thesis
    by (simp add: collide_pair_def Let_def cf bp)
qed

subsection \<open>Fusion is off when its chance is zero\<close>

text \<open>
  C3. With \<open>fusionChance = 0\<close>, whatever \<open>Math.random()\<close> and the clock answer: \<open>canFuse\<close> is
  false for every pair, no pair step and no collision pass of a frame schedules a removal,
  and no radius grows (the two effects of a fusion).
\<close>

theorem no_fusion_when_chance_zero:
  assumes "fusionChance st = 0"
  shows "\<not> fst (canFuse st E t o1 o2)
         \<and> objectsToRemove (collide_pair st E i j s) = objectsToRemove s
         \<and> objectsToRemove (collision_pass st E s) = objectsToRemove s
         \<and> map radius (objects (collision_pass st E s)) = map radius (objects s)"
proof -
  let ?P = "\<lambda>s'. objectsToRemove s' = objectsToRemove s \<and> map radius (objects s') = map radius (objects s)"
  have step: "?P (collide_pair st E i j s')" if "?P s'" for i j s'
    using collide_pair_no_fusion [OF assms, of E i j s'] that by simp
  have inner: "?P (collision_inner st E n i s')" if "?P s'" for n i s'
    unfolding collision_inner_def
    by (rule fold_invariant [where P = ?P]) (use step that in blast)+
  have "?P (collision_pass st E s)"
  proof (cases "enableCollisions st")
    case True
    have "?P (fold (collision_inner st E (length (objects s))) [0 ..< length (objects s)] s)"
      by (rule fold_invariant [where P = ?P]) (use inner in blast, simp)
    with True show ?thesis by (simp add: collision_pass_def)
  next
    case False
    then show ?thesis by (simp add: collision_pass_def)
  qed
  then show ?thesis
    using canFuse_off [OF assms] collide_pair_no_fusion [OF assms] by simp
qed

theorem no_fusion_when_chance_zero_witness:
  "objectsToRemove (collision_pass INITIAL_SETTINGS (steady_env 0 5000)
      (state_of [ball 1 0 0 10, ball 2 10 0 10])) = {}"
  using no_fusion_when_chance_zero
    [of INITIAL_SETTINGS "steady_env 0 5000" 0 "ball 1 0 0 10" "ball 2 10 0 10" 0 1
        "state_of [ball 1 0 0 10, ball 2 10 0 10]"]
  by (simp add: INITIAL_SETTINGS_def state_of_def)

subsection \<open>Fusion of two objects of equal radius\<close>

text \<open>
  C10. In the pair step for the indices \<open>i < j\<close> of the store, when the two objects overlap,
  may fuse (neither grabbed nor scheduled for removal, the draw succeeds, both older than
  2000 ms) and have equal radii, the earlier object \<open>i\<close> grows by 0.4 times the radius of the
  later one, the later object \<open>j\<close> is left as it is and its id, and no other, is scheduled for
  removal.
\<close>

theorem fusion_tie_first_absorbs:
  assumes "i < j" and "j < length (objects s)"
    and "\<not> isGrabbed (objects s ! i)" and "\<not> isGrabbed (objects s ! j)"
    and "obj_id (objects s ! i) \<notin> objectsToRemove s" and "obj_id (objects s ! j) \<notin> objectsToRemove s"
    and "hypot (x (objects s ! j) - x (objects s ! i)) (y (objects s ! j) - y (objects s ! i))
           < radius (objects s ! i) + radius (objects s ! j)"
    and "fusionChance st > 0" and "mathRandom E (tick s + 1) < fusionChance st"
    and "performanceNow E (tick s) - createdAt (objects s ! i) > 2000"
    and "performanceNow E (tick s) - createdAt (objects s ! j) > 2000"
    and "radius (objects s ! i) = radius (objects s ! j)"
  shows "objects (collide_pair st E i j s) ! i
           = (objects s ! i)\<lparr>radius := radius (objects s ! i) + radius (objects s ! j) * 0.4\<rparr>
         \<and> objects (collide_pair st E i j s) ! j = objects s ! j
         \<and> objectsToRemove (collide_pair st E i j s) = insert (obj_id (objects s ! j)) (objectsToRemove s)"
proof -
  have cf: "canFuse st E (tick s) (objects s ! i) (objects s ! j) = (True, tick s + 2)"
    using assms(8-11) by (simp add: canFuse_def Let_def)
  have fp: "fuse_pair (objects s ! i) (objects s ! j)
            = ((objects s ! i)\<lparr>radius := radius (objects s ! i) + radius (objects s ! j) * 0.4\<rparr>,
               objects s ! j, obj_id (objects s ! j))"
    using assms(12) by (simp add: fuse_pair_def)
  have "i < length (objects s)" "i \<noteq> j" using assms(1,2) by simp_all
  then show ?thesis
    using assms(2-7) by (simp add: collide_pair_def Let_def cf fp)
qed

theorem fusion_tie_first_absorbs_witness:
  "radius (objects (collide_pair (INITIAL_SETTINGS\<lparr>fusionChance := 1\<rparr>) (steady_env 0 5000) 0 1
             (state_of [ball 1 0 0 10, ball 2 10 0 10])) ! 0) = 14
   \<and> objectsToRemove (collide_pair (INITIAL_SETTINGS\<lparr>fusionChance := 1\<rparr>) (steady_env 0 5000) 0 1
             (state_of [ball 1 0 0 10, ball 2 10 0 10])) = {2}"
  using fusion_tie_first_absorbs
    [of 0 1 "state_of [ball 1 0 0 10, ball 2 10 0 10]" "INITIAL_SETTINGS\<lparr>fusionChance := 1\<rparr>"
        "steady_env 0 5000"]
  by (simp add: INITIAL_SETTINGS_def state_of_def ball_def steady_env_def hypot_zero_right)

subsection \<open>Facts about \<open>spawnObjects\<close>\<close>


lemma make_object_fields:
  "x (snd (make_object E a t fx fy fr)) = fx"
  "y (snd (make_object E a t fx fy fr)) = fy"
  "radius (snd (make_object E a t fx fy fr)) = fr"
  "isGrabbed (snd (make_object E a t fx fy fr)) = (argGrabbedBy a \<noteq> None)"
  "grabbedByHandIndex (snd (make_object E a t fx fy fr)) = argGrabbedBy a"
  by (simp_all add: make_object_def Let_def)

lemma make_object_velocity:
  "argVx a = Some v \<Longrightarrow> vx (snd (make_object E a t fx fy fr)) = v"
  "argVy a = Some w \<Longrightarrow> vy (snd (make_object E a t fx fy fr)) = w"
  by (simp_all add: make_object_def Let_def)

lemma spawn_attempt_fixed:
  assumes "argX a = Some ax" and "argY a = Some ay"
  shows "\<exists>t' ob. spawn_attempt E V existing a t newObjects = (t', Some ob)
           \<and> x ob = ax \<and> y ob = ay
           \<and> radius ob = (case argRadius a of Some r \<Rightarrow> r | None \<Rightarrow> 20 + mathRandom E t * 25)
           \<and> isGrabbed ob = (argGrabbedBy a \<noteq> None) \<and> grabbedByHandIndex ob = argGrabbedBy a
           \<and> (\<forall>v. argVx a = Some v \<longrightarrow> vx ob = v) \<and> (\<forall>w. argVy a = Some w \<longrightarrow> vy ob = w)"
proof -
  define fr where "fr = (case argRadius a of Some r \<Rightarrow> r | None \<Rightarrow> 20 + mathRandom E t * 25)"
  define t1 where "t1 = (case argRadius a of Some r \<Rightarrow> t | None \<Rightarrow> t + 1)"
  have "spawn_attempt E V existing a t newObjects
        = (fst (make_object E a t1 ax ay fr), Some (snd (make_object E a t1 ax ay fr)))"
    using assms by (simp add: spawn_attempt_def Let_def fr_def t1_def split: prod.splits)
  then show ?thesis
    using make_object_fields [of E a t1 ax ay fr] make_object_velocity [of a _ E t1 ax ay fr]
    by (simp add: fr_def)
qed

lemma spawn_attempt_safe:
  assumes "argX a = None \<or> argY a = None"
    and "spawn_attempt E V existing a t newObjects = (t', Some ob)"
  shows "\<not> list_ex (too_close (x ob) (y ob) (radius ob)) existing
         \<and> \<not> list_ex (too_close (x ob) (y ob) (radius ob)) newObjects"
proof -
  define fr where "fr = (case argRadius a of Some r \<Rightarrow> r | None \<Rightarrow> 20 + mathRandom E t * 25)"
  define t1 where "t1 = (case argRadius a of Some r \<Rightarrow> t | None \<Rightarrow> t + 1)"
  define fx where "fx = mathRandom E t1 * (innerWidth V - 200) + 100"
  define fy where "fy = mathRandom E (t1 + 1) * (innerHeight V - 200) + 100"
  define safe where "safe = (\<not> list_ex (too_close fx fy fr) existing \<and> \<not> list_ex (too_close fx fy fr) newObjects)"
  have eq: "spawn_attempt E V existing a t newObjects
        = (if \<not> safe then (t1 + 2, None)
           else (fst (make_object E a (t1 + 2) fx fy fr), Some (snd (make_object E a (t1 + 2) fx fy fr))))"
    using assms(1)
    by (simp add: spawn_attempt_def Let_def fr_def t1_def fx_def fy_def safe_def split: prod.splits)
  have safe using eq assms(2) by (cases safe) simp_all
  moreover have "ob = snd (make_object E a (t1 + 2) fx fy fr)"
    using eq assms(2) \<open>safe\<close> by simp
  ultimately show ?thesis
    by (simp add: make_object_fields safe_def)
qed

lemma not_too_close_apart: "\<not> too_close (x ob) (y ob) (radius ob) e \<longleftrightarrow> apart e ob"
  by (simp add: too_close_def apart_def not_less)

lemma spawn_loop_props:
  assumes "spawn_loop E V existing a t att new = (t', att', new')"
    and "att \<le> count a * 50" and "length new \<le> count a"
  shows "att' \<le> count a * 50 \<and> length new' \<le> count a
         \<and> (length new' < count a \<longrightarrow> att' = count a * 50)"
  using assms
proof (induction E V existing a t att new rule: spawn_loop.induct)
  case (1 E V existing a t totalAttempts newObjects)
  show ?case
  proof (cases "length newObjects < count a \<and> totalAttempts < count a * 50")
    case False
    with "1.prems" show ?thesis
      by (subst (asm) spawn_loop.simps) auto
  next
    case True
    obtain t1 res where att: "spawn_attempt E V existing a t newObjects = (t1, res)"
      by (cases "spawn_attempt E V existing a t newObjects")
    show ?thesis
    proof (cases res)
      case None
      have "spawn_loop E V existing a t1 (totalAttempts + 1) newObjects = (t', att', new')"
        using "1.prems"(1) True att None by (subst (asm) spawn_loop.simps) simp
      then show ?thesis
        using "1.IH"(1) [OF True att [symmetric] None] True "1.prems" by simp
    next
      case (Some ob)
      have "spawn_loop E V existing a t1 (totalAttempts + 1) (newObjects @ [ob]) = (t', att', new')"
        using "1.prems"(1) True att Some by (subst (asm) spawn_loop.simps) simp
      then show ?thesis
        using "1.IH"(2) [OF True att [symmetric] Some] True "1.prems" by simp
    qed
  qed
qed


lemma well_placed_snoc:
  assumes "well_placed existing new"
    and "\<not> list_ex (too_close (x ob) (y ob) (radius ob)) existing"
    and "\<not> list_ex (too_close (x ob) (y ob) (radius ob)) new"
  shows "well_placed existing (new @ [ob])"
proof -
  have "\<forall>e\<in>set existing. apart e ob" "\<forall>e\<in>set new. apart e ob"
    using assms(2,3) by (simp_all add: list_ex_iff not_too_close_apart)
  then show ?thesis
    using assms(1) by (simp add: well_placed_def sorted_wrt_append)
qed

lemma spawn_loop_separated:
  assumes "spawn_loop E V existing a t att new = (t', att', new')"
    and "argX a = None \<or> argY a = None"
    and "well_placed existing new"
  shows "well_placed existing new'"
  using assms
proof (induction E V existing a t att new rule: spawn_loop.induct)
  case (1 E V existing a t totalAttempts newObjects)
  show ?case
  proof (cases "length newObjects < count a \<and> totalAttempts < count a * 50")
    case False
    then have "new' = newObjects"
      using "1.prems"(1) by (subst (asm) spawn_loop.simps) auto
    then show ?thesis using "1.prems"(3) by simp
  next
    case True
    obtain t1 res where att: "spawn_attempt E V existing a t newObjects = (t1, res)"
      by (cases "spawn_attempt E V existing a t newObjects")
    show ?thesis
    proof (cases res)
      case None
      have "spawn_loop E V existing a t1 (totalAttempts + 1) newObjects = (t', att', new')"
        using "1.prems"(1) True att None by (subst (asm) spawn_loop.simps) simp
      then show ?thesis
        using "1.IH"(1) [OF True att [symmetric] None] "1.prems"(2,3) by simp
    next
      case (Some ob)
      have run: "spawn_loop E V existing a t1 (totalAttempts + 1) (newObjects @ [ob]) = (t', att', new')"
        using "1.prems"(1) True att Some by (subst (asm) spawn_loop.simps) simp
      have "spawn_attempt E V existing a t newObjects = (t1, Some ob)"
        using att Some by simp
      from spawn_attempt_safe [OF "1.prems"(2) this]
      have "well_placed existing (newObjects @ [ob])"
        using well_placed_snoc [OF "1.prems"(3)] by blast
      then show ?thesis
        using "1.IH"(2) [OF True att [symmetric] Some run "1.prems"(2)] by simp
    qed
  qed
qed

lemma spawn_loop_fixed:
  assumes "spawn_loop E V existing a t att new = (t', att', new')"
    and "argX a \<noteq> None" and "argY a \<noteq> None"
    and "att \<le> length new" and "length new \<le> count a"
  shows "length new' = count a"
  using assms
proof (induction E V existing a t att new rule: spawn_loop.induct)
  case (1 E V existing a t totalAttempts newObjects)
  show ?case
  proof (cases "length newObjects < count a \<and> totalAttempts < count a * 50")
    case False
    then have "new' = newObjects"
      using "1.prems"(1) by (subst (asm) spawn_loop.simps) auto
    moreover have "\<not> length newObjects < count a"
      using False "1.prems"(4) by auto
    ultimately show ?thesis using "1.prems"(5) by simp
  next
    case True
    obtain ax ay where "argX a = Some ax" "argY a = Some ay"
      using "1.prems"(2,3) by auto
    then obtain t1 ob where att: "spawn_attempt E V existing a t newObjects = (t1, Some ob)"
      using spawn_attempt_fixed [of a ax ay E V existing t newObjects] by blast
    have run: "spawn_loop E V existing a t1 (totalAttempts + 1) (newObjects @ [ob]) = (t', att', new')"
      using "1.prems"(1) True att by (subst (asm) spawn_loop.simps) simp
    show ?thesis
      using "1.IH"(2) [OF True att [symmetric] refl run "1.prems"(2,3)] True "1.prems"(4) by simp
  qed
qed

lemma spawn_loop_all_rejected:
  assumes "spawn_loop E V existing a t att new = (t', att', new')"
    and "\<forall>k. snd (spawn_attempt E V existing a k new) = None"
  shows "new' = new"
  using assms
proof (induction E V existing a t att new rule: spawn_loop.induct)
  case (1 E V existing a t totalAttempts newObjects)
  show ?case
  proof (cases "length newObjects < count a \<and> totalAttempts < count a * 50")
    case False
    with "1.prems" show ?thesis
      by (subst (asm) spawn_loop.simps) auto
  next
    case True
    obtain t1 where att: "spawn_attempt E V existing a t newObjects = (t1, None)"
      using "1.prems"(2) by (metis prod.collapse)
    have "spawn_loop E V existing a t1 (totalAttempts + 1) newObjects = (t', att', new')"
      using "1.prems"(1) True att by (subst (asm) spawn_loop.simps) simp
    then show ?thesis
      using "1.IH"(1) [OF True att [symmetric] refl] "1.prems"(2) by simp
  qed
qed


lemma spawnObjects_keeps:
  "objects (spawnObjects E V a s) = objects s"
  "objectsToRemove (spawnObjects E V a s) = objectsToRemove s"
  "wasPinchingRef (spawnObjects E V a s) = wasPinchingRef s"
  "lastShotTimeRef (spawnObjects E V a s) = lastShotTimeRef s"
  "prevHandPosRef (spawnObjects E V a s) = prevHandPosRef s"
  by (simp_all add: spawnObjects_def split: prod.splits)

lemma spawnObjects_spawned:
  "spawn_loop E V (objectsRef_current s) a (tick s) 0 [] = (t', n, new)
   \<Longrightarrow> spawned (spawnObjects E V a s) = spawned s @ new"
  by (simp add: spawnObjects_def)

lemma spawn_loop_one_fixed:
  assumes "count a = 1" and "argX a = Some ax" and "argY a = Some ay"
  shows "\<exists>t' ob. spawn_loop E V existing a t 0 [] = (t', 1, [ob])
           \<and> x ob = ax \<and> y ob = ay
           \<and> radius ob = (case argRadius a of Some r \<Rightarrow> r | None \<Rightarrow> 20 + mathRandom E t * 25)
           \<and> isGrabbed ob = (argGrabbedBy a \<noteq> None) \<and> grabbedByHandIndex ob = argGrabbedBy a
           \<and> (\<forall>v. argVx a = Some v \<longrightarrow> vx ob = v) \<and> (\<forall>w. argVy a = Some w \<longrightarrow> vy ob = w)"
proof -
  obtain t' ob where att: "spawn_attempt E V existing a t [] = (t', Some ob)"
    and ob: "x ob = ax \<and> y ob = ay
           \<and> radius ob = (case argRadius a of Some r \<Rightarrow> r | None \<Rightarrow> 20 + mathRandom E t * 25)
           \<and> isGrabbed ob = (argGrabbedBy a \<noteq> None) \<and> grabbedByHandIndex ob = argGrabbedBy a
           \<and> (\<forall>v. argVx a = Some v \<longrightarrow> vx ob = v) \<and> (\<forall>w. argVy a = Some w \<longrightarrow> vy ob = w)"
    using spawn_attempt_fixed [OF assms(2,3), of E V existing t "[]"] by blast
  have "spawn_loop E V existing a t' 1 [ob] = (t', 1, [ob])"
    by (subst spawn_loop.simps) (simp add: assms(1))
  then have "spawn_loop E V existing a t 0 [] = (t', 1, [ob])"
    by (subst spawn_loop.simps) (simp add: assms(1) att)
  with ob show ?thesis by blast
qed

subsection \<open>Placement of spawned objects\<close>

text \<open>
  C9. \<open>spawn_loop\<close> is a total function: the \<open>while\<close> loop of \<open>spawnObjects\<close> ends on every
  input. For a call on the state \<open>s\<close>, with \<open>attempts\<close> the final \<open>totalAttempts\<close> and \<open>placed\<close>
  the final \<open>newObjects\<close>: the store becomes the old store followed by \<open>placed\<close>, whatever
  happened (there is no error value); \<open>attempts\<close> is at most 50 times \<open>count\<close>; at most \<open>count\<close>
  objects are placed, and fewer only when the attempts are used up; in a call without a fixed
  position every placed object keeps the margin (sum of radii plus 5) to every object of the
  store and to every other object of the batch; a call with a fixed position places exactly
  \<open>count\<close> objects.
\<close>

theorem spawn_bounded_separated:
  assumes "spawn_loop E V (objectsRef_current s) a (tick s) 0 [] = (t', attempts, placed)"
  shows "objectsRef_current (spawnObjects E V a s) = objectsRef_current s @ placed
         \<and> attempts \<le> 50 * count a \<and> length placed \<le> count a
         \<and> (length placed < count a \<longrightarrow> attempts = 50 * count a)
         \<and> (argX a = None \<or> argY a = None \<longrightarrow>
              (\<forall>ob\<in>set placed. \<forall>e\<in>set (objectsRef_current s). apart e ob)
              \<and> (\<forall>j<length placed. \<forall>i<j. apart (placed ! i) (placed ! j)))
         \<and> (argX a \<noteq> None \<and> argY a \<noteq> None \<longrightarrow> length placed = count a)"
proof -
  have A: "attempts \<le> 50 * count a \<and> length placed \<le> count a
         \<and> (length placed < count a \<longrightarrow> attempts = 50 * count a)"
    using spawn_loop_props [OF assms] by (simp add: mult.commute)
  have B: "argX a = None \<or> argY a = None \<longrightarrow>
              (\<forall>ob\<in>set placed. \<forall>e\<in>set (objectsRef_current s). apart e ob)
              \<and> (\<forall>j<length placed. \<forall>i<j. apart (placed ! i) (placed ! j))"
  proof
    assume "argX a = None \<or> argY a = None"
    then have "well_placed (objectsRef_current s) placed"
      using spawn_loop_separated [OF assms] by (simp add: well_placed_def)
    then show "(\<forall>ob\<in>set placed. \<forall>e\<in>set (objectsRef_current s). apart e ob)
              \<and> (\<forall>j<length placed. \<forall>i<j. apart (placed ! i) (placed ! j))"
      by (simp add: well_placed_def sorted_wrt_iff_nth_less)
  qed
  have C: "argX a \<noteq> None \<and> argY a \<noteq> None \<longrightarrow> length placed = count a"
    using spawn_loop_fixed [OF assms] by simp
  have D: "objectsRef_current (spawnObjects E V a s) = objectsRef_current s @ placed"
    by (simp add: spawnObjects_def objectsRef_current_def assms [unfolded objectsRef_current_def])
  from A B C D show ?thesis
    by (elim conjE, intro conjI) assumption+
qed

text \<open>
  A run that gives up: the store holds one ball of radius 1000 around the only candidate
  position, so all 50 attempts of \<open>spawnObjects(1)\<close> are rejected and the store is unchanged.
\<close>

theorem spawn_bounded_separated_witness:
  "objectsRef_current (spawnObjects (steady_env 0 0) view_720p (plain_spawn 1)
       (state_of [ball 1 100 100 1000])) = [ball 1 100 100 1000]
   \<and> fst (snd (spawn_loop (steady_env 0 0) view_720p [ball 1 100 100 1000] (plain_spawn 1) 0 0 [])) = 50"
proof -
  let ?s = "state_of [ball 1 100 100 1000]"
  let ?r = "spawn_loop (steady_env 0 0) view_720p (objectsRef_current ?s) (plain_spawn 1) (tick ?s) 0 []"
  have run: "?r = (fst ?r, fst (snd ?r), snd (snd ?r))" by simp
  have "\<forall>k. snd (spawn_attempt (steady_env 0 0) view_720p (objectsRef_current ?s) (plain_spawn 1) k []) = None"
    by (simp add: spawn_attempt_def steady_env_def view_720p_def ball_def too_close_def
        hypot_zero_right Let_def plain_spawn_def state_of_def objectsRef_current_def)
  from spawn_loop_all_rejected [OF run this] have none: "snd (snd ?r) = []" .
  from spawn_bounded_separated [OF run]
  have "objectsRef_current (spawnObjects (steady_env 0 0) view_720p (plain_spawn 1) ?s)
          = objectsRef_current ?s @ snd (snd ?r)"
    and "length (snd (snd ?r)) < count (plain_spawn 1) \<longrightarrow> fst (snd ?r) = 50 * count (plain_spawn 1)"
    by blast+
  with none show ?thesis
    by (simp add: plain_spawn_def state_of_def objectsRef_current_def)
qed

subsection \<open>The shot of a hand in gun pose\<close>

text \<open>
  C7, as the code has it. For a hand in gun pose whose pinch point moved up by more than
  15 px since the last frame: when more than 300 ms have passed since the last shot, exactly
  one object is appended to the store, at the index fingertip, with velocity \<open>(0, -25)\<close>,
  radius 10 and no owner, and the time of the last shot becomes the time just read; when
  300 ms or less have passed, nothing is spawned and the time of the last shot stays.
\<close>

theorem gun_shot_fires:
  assumes "isGun hand" and "velocityY hand < - 15"
  shows "(performanceNow E (tick s) - lastShotTimeRef s > 300 \<longrightarrow>
            (\<exists>ob. spawned (gun_shot E V hand s) = spawned s @ [ob]
                  \<and> x ob = tipX hand \<and> y ob = tipY hand \<and> vx ob = 0 \<and> vy ob = - 25
                  \<and> radius ob = 10 \<and> \<not> isGrabbed ob \<and> grabbedByHandIndex ob = None)
            \<and> lastShotTimeRef (gun_shot E V hand s) = performanceNow E (tick s))
         \<and> (performanceNow E (tick s) - lastShotTimeRef s \<le> 300 \<longrightarrow>
              spawned (gun_shot E V hand s) = spawned s
              \<and> lastShotTimeRef (gun_shot E V hand s) = lastShotTimeRef s)"
proof (intro conjI impI)
  define a where "a = \<lparr>count = 1, argX = Some (tipX hand), argY = Some (tipY hand), argVx = Some 0,
                     argVy = Some (- 25), argRadius = Some 10, argColor = Some ''#FFD700'',
                     argGrabbedBy = None\<rparr>"
  define s1 where "s1 = s\<lparr>tick := tick s + 1\<rparr>"
  assume late: "performanceNow E (tick s) - lastShotTimeRef s > 300"
  then have gs: "gun_shot E V hand s = (spawnObjects E V a s1)\<lparr>lastShotTimeRef := performanceNow E (tick s)\<rparr>"
    using assms by (simp add: gun_shot_def Let_def a_def s1_def)
  obtain t' ob where run: "spawn_loop E V (objectsRef_current s1) a (tick s1) 0 [] = (t', 1, [ob])"
    and ob: "x ob = tipX hand \<and> y ob = tipY hand \<and> radius ob = 10 \<and> \<not> isGrabbed ob
             \<and> grabbedByHandIndex ob = None \<and> vx ob = 0 \<and> vy ob = - 25"
    using spawn_loop_one_fixed [of a "tipX hand" "tipY hand" E V "objectsRef_current s1" "tick s1"]
    by (auto simp: a_def)
  have "spawned (gun_shot E V hand s) = spawned s @ [ob]"
    using spawnObjects_spawned [OF run] by (simp add: gs s1_def)
  with ob show "\<exists>ob. spawned (gun_shot E V hand s) = spawned s @ [ob]
                  \<and> x ob = tipX hand \<and> y ob = tipY hand \<and> vx ob = 0 \<and> vy ob = - 25
                  \<and> radius ob = 10 \<and> \<not> isGrabbed ob \<and> grabbedByHandIndex ob = None"
    by blast
  show "lastShotTimeRef (gun_shot E V hand s) = performanceNow E (tick s)"
    by (simp add: gs)
next
  assume early: "performanceNow E (tick s) - lastShotTimeRef s \<le> 300"
  then have gs: "gun_shot E V hand s = s\<lparr>tick := tick s + 1\<rparr>"
    using assms by (simp add: gun_shot_def Let_def)
  show "spawned (gun_shot E V hand s) = spawned s" by (simp add: gs)
  show "lastShotTimeRef (gun_shot E V hand s) = lastShotTimeRef s"
    using early assms by (simp add: gun_shot_def Let_def)
qed

theorem gun_shot_fires_witness:
  "length (spawned (gun_shot (steady_env 0 500) view_720p (gun_hand 320 240 (- 20)) (state_of []))) = 1
   \<and> lastShotTimeRef (gun_shot (steady_env 0 500) view_720p (gun_hand 320 240 (- 20)) (state_of [])) = 500
   \<and> spawned (gun_shot (steady_env 0 600) view_720p (gun_hand 320 240 (- 20))
        ((state_of [])\<lparr>lastShotTimeRef := 500\<rparr>)) = []"
  using gun_shot_fires [of "gun_hand 320 240 (- 20)" "steady_env 0 500" "state_of []" view_720p]
    gun_shot_fires [of "gun_hand 320 240 (- 20)" "steady_env 0 600" "(state_of [])\<lparr>lastShotTimeRef := 500\<rparr>" view_720p]
  by (auto simp: gun_hand_def steady_env_def state_of_def)

theorem gun_shot_at_300ms_counterexample:
  "isGun (gun_hand 320 240 (- 20)) \<and> velocityY (gun_hand 320 240 (- 20)) < - 15
   \<and> performanceNow (steady_env 0 300) (tick (state_of [])) - lastShotTimeRef (state_of []) \<ge> 300
   \<and> spawned (gun_shot (steady_env 0 300) view_720p (gun_hand 320 240 (- 20)) (state_of [])) = []"
  by (simp add: gun_shot_def gun_hand_def steady_env_def state_of_def Let_def)

subsection \<open>Facts about the physics step\<close>















subsection \<open>Eating and the single removal\<close>




subsection \<open>Geometry of the bounce\<close>

lemma hypot_scale:
  assumes "a \<noteq> 0"
  shows "hypot a b = \<bar>a\<bar> * sqrt (1 + (b / a)\<^sup>2)"
proof -
  have "a\<^sup>2 + b\<^sup>2 = a\<^sup>2 * (1 + (b / a)\<^sup>2)"
    using assms by (simp add: field_simps power2_eq_square)
  then show ?thesis
    by (simp add: hypot_def real_sqrt_mult)
qed

lemma sqrt_one_plus_pos: "0 < sqrt (1 + (c::real)\<^sup>2)"
  by (simp add: add_pos_nonneg)

lemma atan2_polar:
  "hypot a b * cos (atan2 b a) = a \<and> hypot a b * sin (atan2 b a) = b"
proof -
  consider "0 < a" | "a < 0" | "a = 0" "0 < b" | "a = 0" "b < 0" | "a = 0" "b = 0"
    by linarith
  then show ?thesis
  proof cases
    case 1
    have nz: "sqrt (1 + (b / a)\<^sup>2) \<noteq> 0" using sqrt_one_plus_pos [of "b / a"] by simp
    show ?thesis
      using 1 nz by (simp add: atan2_def hypot_scale cos_arctan sin_arctan)
  next
    case 2
    have nz: "sqrt (1 + (b / a)\<^sup>2) \<noteq> 0" using sqrt_one_plus_pos [of "b / a"] by simp
    show ?thesis
      using 2 nz by (simp add: atan2_def hypot_scale cos_arctan sin_arctan)
  next
    case 3
    then show ?thesis by (simp add: atan2_def hypot_zero_left)
  next
    case 4
    then show ?thesis by (simp add: atan2_def hypot_zero_left)
  next
    case 5
    then show ?thesis by (simp add: atan2_def hypot_zero_left)
  qed
qed

lemma hypot_polar:
  "hypot (r * cos t) (r * sin t) = \<bar>r\<bar>"
proof -
  have "(r * cos t)\<^sup>2 + (r * sin t)\<^sup>2 = r\<^sup>2 * (cos t)\<^sup>2 + r\<^sup>2 * (sin t)\<^sup>2"
    by (simp only: power_mult_distrib)
  also have "\<dots> = r\<^sup>2 * ((cos t)\<^sup>2 + (sin t)\<^sup>2)"
    by (simp only: distrib_left)
  also have "\<dots> = r\<^sup>2" by simp
  finally show ?thesis by (simp add: hypot_def)
qed

lemma bounce_pair_distance:
  "hypot (x (snd (bounce_pair st o1 o2)) - x (fst (bounce_pair st o1 o2)))
         (y (snd (bounce_pair st o1 o2)) - y (fst (bounce_pair st o1 o2)))
   = \<bar>radius o1 + radius o2 + 1\<bar>"
proof -
  define dx where "dx = x o2 - x o1"
  define dy where "dy = y o2 - y o1"
  define d where "d = hypot dx dy"
  define t where "t = atan2 dy dx"
  define ov where "ov = (radius o1 + radius o2 - d) + 1"
  have px: "d * cos t = dx" and py: "d * sin t = dy"
    using atan2_polar [of dx dy] by (simp_all add: d_def t_def)
  have "x (snd (bounce_pair st o1 o2)) - x (fst (bounce_pair st o1 o2)) = dx + ov * cos t"
    by (simp add: bounce_pair_def Let_def dx_def dy_def d_def t_def ov_def field_simps)
  also have "\<dots> = (d + ov) * cos t" using px by (simp add: algebra_simps)
  finally have X: "x (snd (bounce_pair st o1 o2)) - x (fst (bounce_pair st o1 o2)) = (d + ov) * cos t" .
  have "y (snd (bounce_pair st o1 o2)) - y (fst (bounce_pair st o1 o2)) = dy + ov * sin t"
    by (simp add: bounce_pair_def Let_def dx_def dy_def d_def t_def ov_def field_simps)
  also have "\<dots> = (d + ov) * sin t" using py by (simp add: algebra_simps)
  finally have Y: "y (snd (bounce_pair st o1 o2)) - y (fst (bounce_pair st o1 o2)) = (d + ov) * sin t" .
  show ?thesis
    unfolding X Y hypot_polar by (simp add: ov_def)
qed


lemma collision_pass_two:
  assumes "length (objects s) = 2" and "enableCollisions st"
  shows "collision_pass st E s = collide_pair st E 0 1 s"
proof -
  have "[0..<2] = [0, 1]" "[0 + 1..<2] = [1]" "[1 + 1..<2] = []"
    by (simp_all add: upt_rec)
  then show ?thesis
    using assms by (simp add: collision_pass_def collision_inner_def)
qed

lemma atan2_zero_pos: "0 < a \<Longrightarrow> atan2 0 a = 0"
  by (simp add: atan2_def)

lemma upt_0_3: "[0..<3] = [0, 1, 2]" "[0 + 1..<3] = [1, 2]" "[1 + 1..<3] = [2]" "[2 + 1..<3] = []"
  by (simp_all add: upt_rec)

subsection \<open>Separation after a collision\<close>

text \<open>
  C2, as the code has it. With fusion disabled, take two objects \<open>i < j\<close> of the store that
  are not grabbed, at a moment when nothing is scheduled for removal. Right after the step of
  the collision pass for this pair the two do not overlap: the distance of the centres is at
  least the sum of the radii, and exactly that sum plus the 1 px buffer when they overlapped
  before. In a store of two objects the full pass of a frame is this one step. (With three or
  more objects the step of a later pair can push an object back into one it was separated
  from; nothing is claimed for the end of the pass then.) The value of \<open>bounce\<close> plays no part.
\<close>

theorem pair_separated_after_resolution:
  assumes "i < j" and "j < length (objects s)" and "fusionChance st = 0"
    and "\<not> isGrabbed (objects s ! i)" and "\<not> isGrabbed (objects s ! j)"
    and "objectsToRemove s = {}"
  shows "radius (objects (collide_pair st E i j s) ! i) + radius (objects (collide_pair st E i j s) ! j)
           \<le> hypot (x (objects (collide_pair st E i j s) ! j) - x (objects (collide_pair st E i j s) ! i))
                    (y (objects (collide_pair st E i j s) ! j) - y (objects (collide_pair st E i j s) ! i))
         \<and> (hypot (x (objects s ! j) - x (objects s ! i)) (y (objects s ! j) - y (objects s ! i))
               < radius (objects s ! i) + radius (objects s ! j)
             \<longrightarrow> hypot (x (objects (collide_pair st E i j s) ! j) - x (objects (collide_pair st E i j s) ! i))
                       (y (objects (collide_pair st E i j s) ! j) - y (objects (collide_pair st E i j s) ! i))
                 = radius (objects s ! i) + radius (objects s ! j) + 1)
         \<and> (length (objects s) = 2 \<and> enableCollisions st
             \<longrightarrow> collision_pass st E s = collide_pair st E i j s)"
proof -
  define a where "a = objects s ! i"
  define b where "b = objects s ! j"
  define s' where "s' = collide_pair st E i j s"
  have ij: "i < length (objects s)" "i \<noteq> j" using assms(1,2) by simp_all
  obtain t' where cf: "canFuse st E (tick s) a b = (False, t')"
    using canFuse_off [OF assms(3), of E "tick s" a b]
    by (cases "canFuse st E (tick s) a b") simp
  have sep: "radius (objects s' ! i) + radius (objects s' ! j)
           \<le> hypot (x (objects s' ! j) - x (objects s' ! i)) (y (objects s' ! j) - y (objects s' ! i))
         \<and> (hypot (x b - x a) (y b - y a) < radius a + radius b
             \<longrightarrow> hypot (x (objects s' ! j) - x (objects s' ! i)) (y (objects s' ! j) - y (objects s' ! i))
                 = radius a + radius b + 1)"
  proof (cases "hypot (x b - x a) (y b - y a) < radius a + radius b")
    case False
    then have "objects s' = objects s"
      using assms by (simp add: s'_def collide_pair_def Let_def a_def b_def)
    with False show ?thesis by (simp add: a_def b_def)
  next
    case True
    define a' where "a' = fst (bounce_pair st a b)"
    define b' where "b' = snd (bounce_pair st a b)"
    have "objects s' = (objects s)[i := a', j := b']"
      using assms True
      by (simp add: s'_def collide_pair_def Let_def cf a'_def b'_def a_def [symmetric] b_def [symmetric]
          split: prod.splits)
    then have nth: "objects s' ! i = a'" "objects s' ! j = b'"
      using ij assms(2) by simp_all
    have rad: "radius a' = radius a" "radius b' = radius b"
      by (simp_all add: a'_def b'_def radius_bounce_pair)
    have "0 \<le> hypot (x b - x a) (y b - y a)" by (rule hypot_nonneg)
    then have "hypot (x b' - x a') (y b' - y a') = radius a + radius b + 1"
      using True bounce_pair_distance [of st a b] by (simp add: a'_def b'_def)
    then show ?thesis by (simp add: nth rad)
  qed
  have two: "collision_pass st E s = collide_pair st E i j s"
    if "length (objects s) = 2 \<and> enableCollisions st"
  proof -
    have "i = 0" "j = 1" using that assms(1,2) by simp_all
    then show ?thesis using that by (simp add: collision_pass_two)
  qed
  from sep two show ?thesis
    unfolding s'_def a_def b_def by blast
qed

theorem pair_separated_after_resolution_witness:
  "hypot (x (objects (collision_pass INITIAL_SETTINGS (steady_env 0 0) (state_of [ball 1 0 0 10, ball 2 10 0 10])) ! 1)
          - x (objects (collision_pass INITIAL_SETTINGS (steady_env 0 0) (state_of [ball 1 0 0 10, ball 2 10 0 10])) ! 0))
         (y (objects (collision_pass INITIAL_SETTINGS (steady_env 0 0) (state_of [ball 1 0 0 10, ball 2 10 0 10])) ! 1)
          - y (objects (collision_pass INITIAL_SETTINGS (steady_env 0 0) (state_of [ball 1 0 0 10, ball 2 10 0 10])) ! 0))
   = 21"
  using pair_separated_after_resolution [of 0 1 "state_of [ball 1 0 0 10, ball 2 10 0 10]"
      INITIAL_SETTINGS "steady_env 0 0"]
  by (simp add: INITIAL_SETTINGS_def state_of_def ball_def hypot_zero_right)

text \<open>
  Three balls of radius 10 in a row, 10 px apart, \<open>bounce = 1\<close>, fusion disabled: after the
  full pass the first two overlap again (centres 12.75 px apart).
\<close>

theorem three_objects_overlap_counterexample:
  "enableCollisions (INITIAL_SETTINGS\<lparr>bounce := 1\<rparr>) \<and> fusionChance (INITIAL_SETTINGS\<lparr>bounce := 1\<rparr>) = 0
   \<and> \<not> isGrabbed (objects (collision_pass (INITIAL_SETTINGS\<lparr>bounce := 1\<rparr>) (steady_env 0 0) three_in_a_row) ! 0)
   \<and> \<not> isGrabbed (objects (collision_pass (INITIAL_SETTINGS\<lparr>bounce := 1\<rparr>) (steady_env 0 0) three_in_a_row) ! 1)
   \<and> hypot (x (objects (collision_pass (INITIAL_SETTINGS\<lparr>bounce := 1\<rparr>) (steady_env 0 0) three_in_a_row) ! 1)
             - x (objects (collision_pass (INITIAL_SETTINGS\<lparr>bounce := 1\<rparr>) (steady_env 0 0) three_in_a_row) ! 0))
            (y (objects (collision_pass (INITIAL_SETTINGS\<lparr>bounce := 1\<rparr>) (steady_env 0 0) three_in_a_row) ! 1)
             - y (objects (collision_pass (INITIAL_SETTINGS\<lparr>bounce := 1\<rparr>) (steady_env 0 0) three_in_a_row) ! 0))
       < radius (objects (collision_pass (INITIAL_SETTINGS\<lparr>bounce := 1\<rparr>) (steady_env 0 0) three_in_a_row) ! 0)
         + radius (objects (collision_pass (INITIAL_SETTINGS\<lparr>bounce := 1\<rparr>) (steady_env 0 0) three_in_a_row) ! 1)"
proof -
  have "objects (collision_pass (INITIAL_SETTINGS\<lparr>bounce := 1\<rparr>) (steady_env 0 0) three_in_a_row)
        = [ball 1 (- 5.5) 0 10, ball 2 7.25 0 10, ball 3 28.25 0 10]"
    by (simp add: collision_pass_def collision_inner_def upt_0_3 collide_pair_def canFuse_def
        bounce_pair_def three_in_a_row_def state_of_def ball_def INITIAL_SETTINGS_def steady_env_def
        hypot_zero_right atan2_zero_pos Let_def)
  then show ?thesis
    by (simp add: INITIAL_SETTINGS_def ball_def hypot_zero_right)
qed

subsection \<open>Facts about the hand preparation\<close>


lemma spawnObjects_one_fixed:
  assumes "count a = 1" and "argX a = Some ax" and "argY a = Some ay"
  shows "\<exists>ob. spawned (spawnObjects E V a s) = spawned s @ [ob]
           \<and> isGrabbed ob = (argGrabbedBy a \<noteq> None) \<and> grabbedByHandIndex ob = argGrabbedBy a"
proof -
  obtain t' ob where run: "spawn_loop E V (objectsRef_current s) a (tick s) 0 [] = (t', 1, [ob])"
    and ob: "isGrabbed ob = (argGrabbedBy a \<noteq> None) \<and> grabbedByHandIndex ob = argGrabbedBy a"
    using spawn_loop_one_fixed [OF assms, of E V "objectsRef_current s" "tick s"] by blast
  from spawnObjects_spawned [OF run] ob show ?thesis by blast
qed

lemma magician_spawn_frame:
  "objects (magician_spawn E V m h hand s) = objects s
   \<and> prevHandPosRef (magician_spawn E V m h hand s) = prevHandPosRef s
   \<and> objectsToRemove (magician_spawn E V m h hand s) = objectsToRemove s
   \<and> (\<exists>new. spawned (magician_spawn E V m h hand s) = spawned s @ new
          \<and> (\<forall>ob\<in>set new. spawn_ok (Suc h) ob))"
proof -
  define a where "a = \<lparr>count = 1, argX = Some (hx hand), argY = Some (hy hand), argVx = Some 0,
                 argVy = Some 0, argRadius = Some 45, argColor = None,
                 argGrabbedBy = Some h\<rparr>"
  have cases: "magician_spawn E V m h hand s = s \<or> magician_spawn E V m h hand s = spawnObjects E V a s"
    by (simp add: magician_spawn_def Let_def a_def)
  obtain ob where ob: "spawned (spawnObjects E V a s) = spawned s @ [ob]"
      "isGrabbed ob = (argGrabbedBy a \<noteq> None) \<and> grabbedByHandIndex ob = argGrabbedBy a"
    using spawnObjects_one_fixed [of a "hx hand" "hy hand" E V s] by (auto simp: a_def)
  then have ok: "spawn_ok (Suc h) ob" by (simp add: spawn_ok_def a_def)
  from cases show ?thesis
  proof
    assume "magician_spawn E V m h hand s = s"
    then show ?thesis by simp
  next
    assume e: "magician_spawn E V m h hand s = spawnObjects E V a s"
    have "\<exists>new. spawned (spawnObjects E V a s) = spawned s @ new \<and> (\<forall>ob\<in>set new. spawn_ok (Suc h) ob)"
      using ob(1) ok by (intro exI [of _ "[ob]"]) simp
    then show ?thesis by (simp add: e spawnObjects_keeps)
  qed
qed

lemma gun_shot_frame:
  "objects (gun_shot E V hand s) = objects s
   \<and> prevHandPosRef (gun_shot E V hand s) = prevHandPosRef s
   \<and> objectsToRemove (gun_shot E V hand s) = objectsToRemove s
   \<and> (\<exists>new. spawned (gun_shot E V hand s) = spawned s @ new
          \<and> (\<forall>ob\<in>set new. spawn_ok n ob))"
proof -
  define a where "a = \<lparr>count = 1, argX = Some (tipX hand), argY = Some (tipY hand), argVx = Some 0,
                     argVy = Some (- 25), argRadius = Some 10, argColor = Some ''#FFD700'',
                     argGrabbedBy = None\<rparr>"
  define s1 where "s1 = s\<lparr>tick := tick s + 1\<rparr>"
  have cases: "gun_shot E V hand s = s \<or> gun_shot E V hand s = s1
      \<or> gun_shot E V hand s = (spawnObjects E V a s1)\<lparr>lastShotTimeRef := performanceNow E (tick s)\<rparr>"
    by (simp add: gun_shot_def Let_def a_def s1_def)
  obtain ob where ob: "spawned (spawnObjects E V a s1) = spawned s1 @ [ob]"
      "isGrabbed ob = (argGrabbedBy a \<noteq> None) \<and> grabbedByHandIndex ob = argGrabbedBy a"
    using spawnObjects_one_fixed [of a "tipX hand" "tipY hand" E V s1] by (auto simp: a_def)
  then have ok: "spawn_ok n ob" by (simp add: spawn_ok_def a_def)
  from cases show ?thesis
  proof (elim disjE)
    assume "gun_shot E V hand s = s"
    then show ?thesis by simp
  next
    assume "gun_shot E V hand s = s1"
    then show ?thesis by (simp add: s1_def)
  next
    assume e: "gun_shot E V hand s = (spawnObjects E V a s1)\<lparr>lastShotTimeRef := performanceNow E (tick s)\<rparr>"
    have "\<exists>new. spawned (spawnObjects E V a s1) = spawned s @ new \<and> (\<forall>ob\<in>set new. spawn_ok n ob)"
      using ob(1) ok by (intro exI [of _ "[ob]"]) (simp add: s1_def)
    then show ?thesis by (simp add: e spawnObjects_keeps s1_def)
  qed
qed

lemma spawn_ok_mono: "spawn_ok n ob \<Longrightarrow> n \<le> n' \<Longrightarrow> spawn_ok n' ob"
  by (auto simp: spawn_ok_def split: option.splits)

lemma hand_iter_frame:
  assumes "hand_iter E st V m h landmarks (hps, s) = (hps', s')"
  shows "objects s' = objects s \<and> prevHandPosRef s' = prevHandPosRef s
         \<and> objectsToRemove s' = objectsToRemove s \<and> length hps' = Suc (length hps)
         \<and> (\<exists>new. spawned s' = spawned s @ new \<and> (\<forall>ob\<in>set new. spawn_ok (Suc h) ob))"
proof -
  define hand where "hand = hand_position st V (prevHandPosRef s) h landmarks"
  define s1 where "s1 = magician_spawn E V m h hand s"
  define s2 where "s2 = gun_shot E V hand s1"
  have res: "hps' = hps @ [hand]" "s' = s2\<lparr>wasPinchingRef := (wasPinchingRef s2)(h := isPinching hand)\<rparr>"
    using assms by (simp_all add: hand_iter_def Let_def hand_def s1_def s2_def)
  note M = magician_spawn_frame [of E V m h hand s, folded s1_def]
  note G = gun_shot_frame [of E V hand s1 "Suc h", folded s2_def]
  obtain n1 where n1: "spawned s1 = spawned s @ n1" "\<forall>ob\<in>set n1. spawn_ok (Suc h) ob"
    using M by blast
  obtain n2 where n2: "spawned s2 = spawned s1 @ n2" "\<forall>ob\<in>set n2. spawn_ok (Suc h) ob"
    using G by blast
  have "spawned s' = spawned s @ (n1 @ n2) \<and> (\<forall>ob\<in>set (n1 @ n2). spawn_ok (Suc h) ob)"
    using n1 n2 res by auto
  then have "\<exists>new. spawned s' = spawned s @ new \<and> (\<forall>ob\<in>set new. spawn_ok (Suc h) ob)"
    by blast
  then show ?thesis using M G res by simp
qed

lemma hand_logic_prep_frame:
  assumes "hand_logic_prep E st V m h hands (hps, s) = (hps', s')"
  shows "objects s' = objects s \<and> prevHandPosRef s' = prevHandPosRef s
         \<and> objectsToRemove s' = objectsToRemove s \<and> length hps' = length hps + length hands
         \<and> (\<exists>new. spawned s' = spawned s @ new \<and> (\<forall>ob\<in>set new. spawn_ok (h + length hands) ob))"
  using assms
proof (induction hands arbitrary: h hps s)
  case Nil
  then show ?case by simp
next
  case (Cons landmarks rest)
  obtain hps1 s1 where it: "hand_iter E st V m h landmarks (hps, s) = (hps1, s1)"
    by (cases "hand_iter E st V m h landmarks (hps, s)")
  then have run: "hand_logic_prep E st V m (Suc h) rest (hps1, s1) = (hps', s')"
    using Cons.prems by simp
  note I = hand_iter_frame [OF it]
  note R = Cons.IH [OF run]
  obtain n1 where n1: "spawned s1 = spawned s @ n1" "\<forall>ob\<in>set n1. spawn_ok (Suc h) ob"
    using I by blast
  obtain n2 where n2: "spawned s' = spawned s1 @ n2" "\<forall>ob\<in>set n2. spawn_ok (Suc h + length rest) ob"
    using R by blast
  have "\<forall>ob\<in>set n1. spawn_ok (Suc h + length rest) ob"
    using n1(2) spawn_ok_mono by (metis le_add1)
  then have "spawned s' = spawned s @ (n1 @ n2) \<and> (\<forall>ob\<in>set (n1 @ n2). spawn_ok (Suc h + length rest) ob)"
    using n1 n2 by auto
  then have "\<exists>new. spawned s' = spawned s @ new \<and> (\<forall>ob\<in>set new. spawn_ok (h + length (landmarks # rest)) ob)"
    by (metis add_Suc add_Suc_right length_Cons)
  then show ?case using I R by simp
qed

subsection \<open>Grab resolution, object by object\<close>


lemma single_hand_iter_map:
  "single_hand_iter st dg prev h hand objs = map (hand_obj st dg prev h hand) objs"
proof (cases "prev h")
  case None
  then have "map (hand_obj st dg prev h hand) objs = objs"
    by (intro map_idI) (simp add: hand_obj_def)
  with None show ?thesis by (simp add: single_hand_iter_def)
next
  case (Some p)
  then show ?thesis by (simp add: single_hand_iter_def hand_obj_def)
qed

lemma single_hand_forEach_map:
  "single_hand_forEach st dg prev h hps objs = map (hands_obj st dg prev h hps) objs"
proof (induction hps arbitrary: h objs)
  case Nil
  have "map (hands_obj st dg prev h []) objs = objs" by (intro map_idI) simp
  then show ?case by simp
next
  case (Cons hand rest)
  then show ?case by (simp add: single_hand_iter_map)
qed

lemma grab_resolution_map:
  "grab_resolution st hps s =
     (currentDoubleGrabs hps (objects s),
      s\<lparr>objects := map (resolve_obj st hps (prevHandPosRef s) (currentDoubleGrabs hps (objects s))) (objects s)\<rparr>)"
  by (simp add: grab_resolution_def Let_def double_grab_step_def single_hand_logic_def
      stale_cleanup_def single_hand_forEach_map resolve_obj_def)

lemma interaction_objects:
  assumes "interaction E st V m hands s = (hps, dg, s')"
  shows "dg = currentDoubleGrabs hps (objects s)
         \<and> objects s' = map (resolve_obj st hps (prevHandPosRef s) dg) (objects s)
         \<and> length hps = length hands"
proof -
  obtain hps1 s1 where prep: "hand_logic_prep E st V m 0 hands ([], s) = (hps1, s1)"
    by (cases "hand_logic_prep E st V m 0 hands ([], s)")
  note P = hand_logic_prep_frame [OF prep]
  have "hps = hps1" "dg = currentDoubleGrabs hps1 (objects s1)"
    "s' = update_prev hps1 (s1\<lparr>objects := map (resolve_obj st hps1 (prevHandPosRef s1) (currentDoubleGrabs hps1 (objects s1))) (objects s1)\<rparr>)"
    using assms by (auto simp: interaction_def prep grab_resolution_map)
  then show ?thesis using P by (simp add: update_prev_def Let_def)
qed
















lemma shared_force_shared: "sharedGrab (force_shared h0 h1 prev obj)"
  by (simp add: force_shared_def resize_def Let_def sharedGrab_def split: option.splits)







lemma hand_obj_grab:
  assumes "prev h = Some p" and "isPinching hand" and "obj_id obj \<notin> dg"
    and "\<not> isGrabbed obj" and "near_hand hand obj"
  shows "hand_obj st dg prev h hand obj = obj\<lparr>isGrabbed := True, grabbedByHandIndex := Some h\<rparr>"
  using assms by (simp add: hand_obj_def single_hand_obj_def Let_def near_hand_def)

lemma hand_obj_drag:
  assumes "prev h = Some p" and "isPinching hand" and "obj_id obj \<notin> dg"
    and "isGrabbed obj" and "grabbedByHandIndex obj = Some h"
  shows "hand_obj st dg prev h hand obj
         = obj\<lparr>x := hx hand, y := hy hand, vx := (hx hand - fst p) * throwForce st,
               vy := (hy hand - snd p) * throwForce st\<rparr>"
  using assms by (simp add: hand_obj_def single_hand_obj_def Let_def)

lemma hand_obj_other:
  assumes "isGrabbed obj" and "grabbedByHandIndex obj = Some h'" and "h' \<noteq> h"
  shows "hand_obj st dg prev h hand obj = obj"
  using assms by (simp add: hand_obj_def single_hand_obj_def release_obj_def Let_def split: option.splits)

lemma hand_obj_free:
  assumes "\<not> isGrabbed obj" and "prev h = None \<or> \<not> isPinching hand \<or> \<not> near_hand hand obj"
  shows "hand_obj st dg prev h hand obj = obj"
  using assms
  by (auto simp: hand_obj_def single_hand_obj_def release_obj_def Let_def near_hand_def split: option.splits)

lemma cleanup_obj_owned: "grabbedByHandIndex obj \<noteq> None \<Longrightarrow> cleanup_obj dg obj = obj"
  by (simp add: cleanup_obj_def)

lemma qualifies_in_dg:
  assumes "both_pinching hps" and "double_grab_qualifies (hps ! 0) (hps ! 1) obj" and "obj \<in> set objs"
  shows "obj_id obj \<in> currentDoubleGrabs hps objs"
  using assms by (auto simp: currentDoubleGrabs_def)

lemma resolve_obj_outside:
  assumes "obj_id obj \<notin> currentDoubleGrabs hps objs" and "obj \<in> set objs"
  shows "resolve_obj st hps prev dg obj = cleanup_obj dg (hands_obj st dg prev 0 hps obj)"
  using assms qualifies_in_dg [of hps obj objs]
  by (auto simp: resolve_obj_def double_grab_obj_def)

lemma near_both_qualifies:
  assumes "near_hand a obj" and "near_hand b obj"
  shows "double_grab_qualifies a b obj"
  using assms by (simp add: double_grab_qualifies_def near_hand_def Let_def)



lemma hand_position_pinch:
  "hand_position INITIAL_SETTINGS view_720p prev h (pinch_landmarks lx ly)
   = \<lparr>hx = (1 - lx) * 1280, hy = ly * 720, isPinching = True, isGun = False,
      tipX = (1 - lx) * 1280, tipY = ly * 720,
      velocityY = (case prev h of None \<Rightarrow> 0 | Some prevPos \<Rightarrow> ly * 720 - snd prevPos)\<rparr>"
  by (simp add: hand_position_def pinch_landmarks_def isGunGesture_def hypot_zero_right
      INITIAL_SETTINGS_def view_720p_def Let_def split: option.splits)

lemma first_pinch_run:
  "interaction (steady_env 0 0) INITIAL_SETTINGS view_720p (mouth_logic view_720p None)
      [pinch_landmarks (59/64) (5/36)] (state_of [ball 1 110 100 20])
   = ([hand_at 100 100 True], {},
      (state_of [ball 1 110 100 20])\<lparr>wasPinchingRef := (\<lambda>h. False)(0 := True),
                                      prevHandPosRef := [0 \<mapsto> (100, 100)]\<rparr>)"
  by (simp add: interaction_def hand_iter_def hand_position_pinch magician_spawn_def gun_shot_def
      mouth_logic_def grab_resolution_def currentDoubleGrabs_def both_pinching_def
      double_grab_step_def single_hand_logic_def single_hand_iter_def stale_cleanup_def
      cleanup_obj_def update_prev_def state_of_def ball_def hand_at_def Let_def)

lemma second_pinch_run:
  "interaction (steady_env 0 0) INITIAL_SETTINGS view_720p (mouth_logic view_720p None)
      [pinch_landmarks (59/64) (5/36)] (seen_at 100 100 (state_of [ball 1 110 100 20]))
   = ([hand_at 100 100 True], {},
      (state_of [(ball 1 110 100 20)\<lparr>isGrabbed := True, grabbedByHandIndex := Some 0\<rparr>])
        \<lparr>wasPinchingRef := (\<lambda>h. False)(0 := True), prevHandPosRef := [0 \<mapsto> (100, 100)]\<rparr>)"
  by (simp add: interaction_def hand_iter_def hand_position_pinch magician_spawn_def gun_shot_def
      mouth_logic_def grab_resolution_def currentDoubleGrabs_def both_pinching_def
      double_grab_step_def single_hand_logic_def single_hand_iter_def single_hand_obj_def stale_cleanup_def
      cleanup_obj_def update_prev_def state_of_def ball_def hand_at_def seen_at_def hypot_zero_right Let_def)


subsection \<open>Grab states at the end of the interaction\<close>



text \<open>
  One call \<open>spawnObjects(2)\<close> in a world where the clock reads the same millisecond twice
  and the two random draws of line 94 agree gives two objects of one id.
\<close>

lemma spawn_twice_same_id:
  "spawned (spawnObjects same_ms_env view_720p (plain_spawn 2) (state_of []))
   = [(ball 1 100 100 20)\<lparr>vx := -3, vy := -3\<rparr>, (ball 1 640 100 20)\<lparr>vx := -3, vy := -3\<rparr>]"
proof -
  define ob1 where "ob1 = (ball 1 100 100 20)\<lparr>vx := -3, vy := -3\<rparr>"
  define ob2 where "ob2 = (ball 1 640 100 20)\<lparr>vx := -3, vy := -3\<rparr>"
  define a where "a = plain_spawn 2"
  have cnt: "count a = 2" by (simp add: a_def plain_spawn_def)
  have a1: "spawn_attempt same_ms_env view_720p [] a 0 [] = (10, Some ob1)"
    by (simp add: spawn_attempt_def make_object_def a_def plain_spawn_def same_ms_env_def view_720p_def
        Let_def pick_color_def colors_def ob1_def ball_def)
  have a2: "spawn_attempt same_ms_env view_720p [] a 10 [ob1] = (20, Some ob2)"
    by (simp add: spawn_attempt_def make_object_def a_def plain_spawn_def same_ms_env_def view_720p_def
        Let_def pick_color_def colors_def too_close_def hypot_zero_right ob1_def ob2_def ball_def)
  have l3: "spawn_loop same_ms_env view_720p [] a 20 (Suc (Suc 0)) [ob1, ob2] = (20, Suc (Suc 0), [ob1, ob2])"
    by (subst spawn_loop.simps) (simp add: cnt)
  have l2: "spawn_loop same_ms_env view_720p [] a 10 (Suc 0) [ob1] = (20, Suc (Suc 0), [ob1, ob2])"
    by (subst spawn_loop.simps) (simp add: cnt a2 l3)
  have l1: "spawn_loop same_ms_env view_720p [] a 0 0 [] = (20, Suc (Suc 0), [ob1, ob2])"
    by (subst spawn_loop.simps) (simp add: cnt a1 l2)
  have "spawn_loop same_ms_env view_720p (objectsRef_current (state_of [])) (plain_spawn 2) (tick (state_of [])) 0 []
        = (20, Suc (Suc 0), [ob1, ob2])"
    using l1 by (simp add: objectsRef_current_def state_of_def a_def)
  then show ?thesis
    by (simp add: spawnObjects_def state_of_def ob1_def ob2_def)
qed




subsection \<open>Grab and drag by one hand\<close>

text \<open>
  What the per-hand preparation and the rest of the interaction each leave alone: the
  preparation keeps the captured objects and the previous pinch points, the rest keeps the
  spawned objects, the time of the last shot, the pinch flags and the counter of the clock.
\<close>

lemma interaction_frame:
  assumes "hand_logic_prep E st V m 0 hands ([], s) = (hps1, s1)"
    and "interaction E st V m hands s = (hps, dg, s')"
  shows "hps = hps1 \<and> objects s1 = objects s \<and> prevHandPosRef s1 = prevHandPosRef s
         \<and> spawned s' = spawned s1 \<and> lastShotTimeRef s' = lastShotTimeRef s1
         \<and> wasPinchingRef s' = wasPinchingRef s1 \<and> tick s' = tick s1
         \<and> dg = currentDoubleGrabs hps (objects s)
         \<and> objects s' = objects (stale_cleanup dg (single_hand_logic st dg hps (double_grab_step hps s)))
         \<and> prevHandPosRef s' = prevHandPosRef (update_prev hps s)"
proof -
  note P = hand_logic_prep_frame [OF assms(1)]
  have o1: "objects s1 = objects s" and p1: "prevHandPosRef s1 = prevHandPosRef s"
    using P by simp_all
  obtain s4 where gr: "grab_resolution st hps1 s1 = (dg, s4)"
    and res: "hps = hps1" "s' = update_prev hps1 s4"
    using assms(2) by (auto simp: interaction_def assms(1) split: prod.splits)
  have dg: "dg = currentDoubleGrabs hps1 (objects s)"
    using gr by (simp add: grab_resolution_def Let_def o1)
  have s4: "s4 = stale_cleanup dg (single_hand_logic st dg hps1 (double_grab_step hps1 s1))"
    using gr by (auto simp: grab_resolution_def Let_def)
  have keep: "spawned s4 = spawned s1" "lastShotTimeRef s4 = lastShotTimeRef s1"
    "wasPinchingRef s4 = wasPinchingRef s1" "tick s4 = tick s1" "prevHandPosRef s4 = prevHandPosRef s1"
    by (simp_all add: s4 stale_cleanup_def single_hand_logic_def double_grab_step_def)
  have objs: "objects s4 = objects (stale_cleanup dg (single_hand_logic st dg hps1 (double_grab_step hps1 s)))"
    by (simp add: s4 stale_cleanup_def single_hand_logic_def double_grab_step_def o1 p1)
  have up: "spawned s' = spawned s4" "lastShotTimeRef s' = lastShotTimeRef s4"
    "wasPinchingRef s' = wasPinchingRef s4" "tick s' = tick s4" "objects s' = objects s4"
    "prevHandPosRef s' = prevHandPosRef (update_prev hps1 s)"
    by (simp_all add: res update_prev_def Let_def keep p1)
  show ?thesis
    using o1 p1 dg objs by (simp add: res(1) up keep)
qed

text \<open>
  A pinching hand with a recorded previous pinch point, on an object outside the double-grab
  set.
\<close>

lemma grab_and_drag_with_prev:
  assumes "interaction E st V m hands s = (hps, dg, s')"
    and "length hands \<le> 2" and "h < length hands"
    and "isPinching (hps ! h)" and "prevHandPosRef s h = Some p"
    and "k < length (objects s)" and "obj_id (objects s ! k) \<notin> dg"
  shows "(\<not> isGrabbed (objects s ! k) \<and> near_hand (hps ! h) (objects s ! k)
            \<longrightarrow> objects s' ! k = (objects s ! k)\<lparr>isGrabbed := True, grabbedByHandIndex := Some h\<rparr>)
         \<and> (isGrabbed (objects s ! k) \<and> grabbedByHandIndex (objects s ! k) = Some h
            \<longrightarrow> objects s' ! k
                = (objects s ! k)\<lparr>x := hx (hps ! h), y := hy (hps ! h),
                                  vx := (hx (hps ! h) - fst p) * throwForce st,
                                  vy := (hy (hps ! h) - snd p) * throwForce st\<rparr>)"
proof -
  define ob where "ob = objects s ! k"
  define prev where "prev = prevHandPosRef s"
  note I = interaction_objects [OF assms(1)]
  have dg: "dg = currentDoubleGrabs hps (objects s)" using I by simp
  have mem: "ob \<in> set (objects s)" using assms(6) by (simp add: ob_def)
  have out: "obj_id ob \<notin> dg" using assms(7) by (simp add: ob_def)
  have res: "objects s' ! k = cleanup_obj dg (hands_obj st dg prev 0 hps ob)"
    using I assms(6) resolve_obj_outside [of ob hps "objects s" st prev dg] out mem dg
    by (simp add: ob_def prev_def)
  have ph: "prev h = Some p" using assms(5) by (simp add: prev_def)
  have len: "length hps = length hands" using I by simp
  consider a where "hps = [a]" "h = 0" | a b where "hps = [a, b]" "h = 0" | a b where "hps = [a, b]" "h = 1"
  proof -
    have "length hps = 1 \<or> length hps = 2" using len assms(2,3) by linarith
    then show ?thesis
    proof
      assume "length hps = 1"
      then obtain a where "hps = [a]" by (auto simp: length_Suc_conv)
      moreover have "h = 0" using \<open>length hps = 1\<close> len assms(3) by simp
      ultimately show ?thesis using that(1) by blast
    next
      assume "length hps = 2"
      then obtain a b where "hps = [a, b]"
        by (auto simp: length_Suc_conv numeral_2_eq_2)
      moreover have "h = 0 \<or> h = 1" using \<open>length hps = 2\<close> len assms(3) by auto
      ultimately show ?thesis using that(2,3) by blast
    qed
  qed
  then show ?thesis
  proof cases
    case 1
    then have pa: "isPinching a" using assms(4) by simp
    have G: "objects s' ! k = ob\<lparr>isGrabbed := True, grabbedByHandIndex := Some 0\<rparr>"
      if "\<not> isGrabbed ob" "near_hand a ob"
      using hand_obj_grab [of prev 0 p a ob dg st] ph pa out that 1
      by (simp add: res cleanup_obj_owned)
    have D: "objects s' ! k = ob\<lparr>x := hx a, y := hy a, vx := (hx a - fst p) * throwForce st,
                                 vy := (hy a - snd p) * throwForce st\<rparr>"
      if "isGrabbed ob" "grabbedByHandIndex ob = Some 0"
      using hand_obj_drag [of prev 0 p a ob dg st] ph pa out that 1
      by (simp add: res cleanup_obj_owned)
    show ?thesis using G D 1 by (simp add: ob_def)
  next
    case 2
    then have pa: "isPinching a" using assms(4) by simp
    have G: "objects s' ! k = ob\<lparr>isGrabbed := True, grabbedByHandIndex := Some 0\<rparr>"
      if "\<not> isGrabbed ob" "near_hand a ob"
    proof -
      have "hand_obj st dg prev 0 a ob = ob\<lparr>isGrabbed := True, grabbedByHandIndex := Some 0\<rparr>"
        using hand_obj_grab [of prev 0 p a ob dg st] ph pa out that 2 by simp
      moreover have "hand_obj st dg prev 1 b (ob\<lparr>isGrabbed := True, grabbedByHandIndex := Some 0\<rparr>)
                     = ob\<lparr>isGrabbed := True, grabbedByHandIndex := Some 0\<rparr>"
        by (rule hand_obj_other [where h' = 0]) simp_all
      ultimately show ?thesis using 2 by (simp add: res cleanup_obj_owned)
    qed
    have D: "objects s' ! k = ob\<lparr>x := hx a, y := hy a, vx := (hx a - fst p) * throwForce st,
                                 vy := (hy a - snd p) * throwForce st\<rparr>"
      if "isGrabbed ob" "grabbedByHandIndex ob = Some 0"
    proof -
      define ob1 where "ob1 = ob\<lparr>x := hx a, y := hy a, vx := (hx a - fst p) * throwForce st,
                                 vy := (hy a - snd p) * throwForce st\<rparr>"
      have "hand_obj st dg prev 0 a ob = ob1"
        using hand_obj_drag [of prev 0 p a ob dg st] ph pa out that 2 by (simp add: ob1_def)
      moreover have "hand_obj st dg prev 1 b ob1 = ob1"
        by (rule hand_obj_other [where h' = 0]) (simp_all add: ob1_def that)
      moreover have "grabbedByHandIndex ob1 \<noteq> None" by (simp add: ob1_def that)
      ultimately show ?thesis using 2 by (simp add: res cleanup_obj_owned ob1_def [symmetric])
    qed
    show ?thesis using G D 2 by (simp add: ob_def)
  next
    case 3
    then have pb: "isPinching b" using assms(4) by simp
    have G: "objects s' ! k = ob\<lparr>isGrabbed := True, grabbedByHandIndex := Some 1\<rparr>"
      if "\<not> isGrabbed ob" "near_hand b ob"
    proof -
      have "\<not> (isPinching a \<and> near_hand a ob)"
      proof
        assume "isPinching a \<and> near_hand a ob"
        then have "both_pinching hps" "double_grab_qualifies (hps ! 0) (hps ! 1) ob"
          using pb that 3 by (simp_all add: both_pinching_def near_both_qualifies)
        then show False using qualifies_in_dg [OF _ _ mem] out dg by simp
      qed
      then have "hand_obj st dg prev 0 a ob = ob"
        using that by (intro hand_obj_free) auto
      moreover have "hand_obj st dg prev 1 b ob = ob\<lparr>isGrabbed := True, grabbedByHandIndex := Some 1\<rparr>"
        using hand_obj_grab [of prev 1 p b ob dg st] ph pb out that 3 by simp
      ultimately show ?thesis using 3 by (simp add: res cleanup_obj_owned)
    qed
    have D: "objects s' ! k = ob\<lparr>x := hx b, y := hy b, vx := (hx b - fst p) * throwForce st,
                                 vy := (hy b - snd p) * throwForce st\<rparr>"
      if "isGrabbed ob" "grabbedByHandIndex ob = Some 1"
    proof -
      have "hand_obj st dg prev 0 a ob = ob"
        by (rule hand_obj_other [where h' = 1]) (simp_all add: that)
      moreover have "hand_obj st dg prev 1 b ob = ob\<lparr>x := hx b, y := hy b, vx := (hx b - fst p) * throwForce st,
                                 vy := (hy b - snd p) * throwForce st\<rparr>"
        using hand_obj_drag [of prev 1 p b ob dg st] ph pb out that 3 by simp
      ultimately show ?thesis using 3 that by (simp add: res cleanup_obj_owned)
    qed
    show ?thesis using G D 3 by (simp add: ob_def)
  qed
qed

text \<open>A hand without a previous pinch point (the \<open>return\<close> of line 472).\<close>

lemma hand_obj_not_grab:
  assumes "i \<noteq> h \<or> prev h = None" and "\<not> grabbedBy h obj"
  shows "\<not> grabbedBy h (hand_obj st dg prev i hand obj)"
  using assms
  by (auto simp: hand_obj_def single_hand_obj_def release_obj_def grabbedBy_def Let_def
      split: option.splits if_splits)

lemma hands_obj_not_grab:
  assumes "prev h = None" and "\<not> grabbedBy h obj"
  shows "\<not> grabbedBy h (hands_obj st dg prev i hps obj)"
  using assms(2)
proof (induction hps arbitrary: i obj)
  case Nil
  then show ?case by simp
next
  case (Cons hand rest)
  have "\<not> grabbedBy h (hand_obj st dg prev i hand obj)"
    using assms(1) Cons.prems by (intro hand_obj_not_grab) simp_all
  then show ?case using Cons.IH by simp
qed

lemma double_grab_obj_not_grab:
  "\<not> grabbedBy h obj \<Longrightarrow> \<not> grabbedBy h (double_grab_obj h0 h1 prev obj)"
  using shared_force_shared [of h0 h1 prev obj]
  by (auto simp: double_grab_obj_def grabbedBy_def sharedGrab_def)

lemma cleanup_obj_not_grab: "\<not> grabbedBy h obj \<Longrightarrow> \<not> grabbedBy h (cleanup_obj dg obj)"
  by (auto simp: cleanup_obj_def grabbedBy_def)

lemma resolve_obj_not_grab:
  assumes "prev h = None" and "\<not> grabbedBy h obj"
  shows "\<not> grabbedBy h (resolve_obj st hps prev dg obj)"
  unfolding resolve_obj_def
  by (intro cleanup_obj_not_grab hands_obj_not_grab assms(1))
     (simp add: double_grab_obj_not_grab assms(2))

lemma hand_obj_no_prev: "prev h = None \<Longrightarrow> hand_obj st dg prev h hand obj = obj"
  by (simp add: hand_obj_def)

lemma hands_obj_keeps_held:
  assumes "prev h = None" and "grabbedBy h obj"
  shows "hands_obj st dg prev i hps obj = obj"
proof (induction hps arbitrary: i)
  case Nil
  then show ?case by simp
next
  case (Cons hand rest)
  have "hand_obj st dg prev i hand obj = obj"
  proof (cases "i = h")
    case True
    then show ?thesis using assms(1) by (simp add: hand_obj_no_prev)
  next
    case False
    then show ?thesis
      using assms(2) by (intro hand_obj_other [where h' = h]) (simp_all add: grabbedBy_def)
  qed
  then show ?case using Cons.IH by simp
qed

lemma resolve_obj_keeps_held:
  assumes "prev h = None" and "grabbedBy h obj"
    and "obj_id obj \<notin> currentDoubleGrabs hps objs" and "obj \<in> set objs"
  shows "resolve_obj st hps prev dg obj = obj"
proof -
  have "resolve_obj st hps prev dg obj = cleanup_obj dg (hands_obj st dg prev 0 hps obj)"
    using assms(3,4) by (rule resolve_obj_outside)
  also have "\<dots> = cleanup_obj dg obj"
    using hands_obj_keeps_held [where prev = prev and h = h and obj = obj and st = st and dg = dg and i = 0 and hps = hps] assms(1,2)
    by simp
  also have "\<dots> = obj"
    using assms(2) by (intro cleanup_obj_owned) (simp add: grabbedBy_def)
  finally show ?thesis .
qed

text \<open>
  C6, as the code has it. Take a frame with at most two detected hands in which hand \<open>h\<close>
  pinches, and an object of the store as captured at the start of the frame. If the hand has
  a recorded previous pinch point \<open>p\<close> and the id of the object is not in the double-grab set
  of the frame: an ungrabbed object whose centre is closer than \<open>radius + 40\<close> to the pinch
  point leaves the interaction grabbed by \<open>h\<close>, otherwise unchanged; an object grabbed by \<open>h\<close>
  leaves the interaction at the pinch point with the velocity \<open>throwForce\<close> times the
  displacement of the pinch point since \<open>p\<close>. If the hand has no previous pinch point, it
  neither grabs nor drags: an object not grabbed by \<open>h\<close> is not grabbed by \<open>h\<close> afterwards,
  and an object grabbed by \<open>h\<close> whose id is not in the double-grab set is left as it is. The
  interaction visits the captured objects only: their number stays, and the objects spawned
  in the frame are the ones the per-hand preparation appended, as it appended them.
\<close>

theorem single_hand_grab_and_drag:
  assumes "interaction E st V m hands s = (hps, dg, s')"
    and "length hands \<le> 2" and "h < length hands"
    and "isPinching (hps ! h)" and "k < length (objects s)"
  shows "(\<forall>p. prevHandPosRef s h = Some p \<and> obj_id (objects s ! k) \<notin> dg \<longrightarrow>
            (\<not> isGrabbed (objects s ! k) \<and> near_hand (hps ! h) (objects s ! k)
               \<longrightarrow> objects s' ! k = (objects s ! k)\<lparr>isGrabbed := True, grabbedByHandIndex := Some h\<rparr>)
            \<and> (isGrabbed (objects s ! k) \<and> grabbedByHandIndex (objects s ! k) = Some h
               \<longrightarrow> objects s' ! k
                   = (objects s ! k)\<lparr>x := hx (hps ! h), y := hy (hps ! h),
                                     vx := (hx (hps ! h) - fst p) * throwForce st,
                                     vy := (hy (hps ! h) - snd p) * throwForce st\<rparr>))
         \<and> (prevHandPosRef s h = None \<longrightarrow>
              (\<not> grabbedBy h (objects s ! k) \<longrightarrow> \<not> grabbedBy h (objects s' ! k))
              \<and> (grabbedBy h (objects s ! k) \<and> obj_id (objects s ! k) \<notin> dg
                  \<longrightarrow> objects s' ! k = objects s ! k))
         \<and> length (objects s') = length (objects s)
         \<and> spawned s' = spawned (snd (hand_logic_prep E st V m 0 hands ([], s)))"
proof -
  note I = interaction_objects [OF assms(1)]
  have res: "objects s' ! k = resolve_obj st hps (prevHandPosRef s) dg (objects s ! k)"
    using I assms(5) by simp
  have dg: "dg = currentDoubleGrabs hps (objects s)" using I by simp
  have mem: "objects s ! k \<in> set (objects s)" using assms(5) by simp
  have A: "\<forall>p. prevHandPosRef s h = Some p \<and> obj_id (objects s ! k) \<notin> dg \<longrightarrow>
            (\<not> isGrabbed (objects s ! k) \<and> near_hand (hps ! h) (objects s ! k)
               \<longrightarrow> objects s' ! k = (objects s ! k)\<lparr>isGrabbed := True, grabbedByHandIndex := Some h\<rparr>)
            \<and> (isGrabbed (objects s ! k) \<and> grabbedByHandIndex (objects s ! k) = Some h
               \<longrightarrow> objects s' ! k
                   = (objects s ! k)\<lparr>x := hx (hps ! h), y := hy (hps ! h),
                                     vx := (hx (hps ! h) - fst p) * throwForce st,
                                     vy := (hy (hps ! h) - snd p) * throwForce st\<rparr>)"
    using grab_and_drag_with_prev [OF assms(1-4) _ assms(5)] by blast
  have B: "prevHandPosRef s h = None \<longrightarrow>
              (\<not> grabbedBy h (objects s ! k) \<longrightarrow> \<not> grabbedBy h (objects s' ! k))
              \<and> (grabbedBy h (objects s ! k) \<and> obj_id (objects s ! k) \<notin> dg
                  \<longrightarrow> objects s' ! k = objects s ! k)"
    using resolve_obj_not_grab [of "prevHandPosRef s" h "objects s ! k" st hps dg]
      resolve_obj_keeps_held [of "prevHandPosRef s" h "objects s ! k" hps "objects s" st dg] mem dg
    by (auto simp: res)
  have C: "length (objects s') = length (objects s)" using I by simp
  have D: "spawned s' = spawned (snd (hand_logic_prep E st V m 0 hands ([], s)))"
    using interaction_frame [OF _ assms(1), of "fst (hand_logic_prep E st V m 0 hands ([], s))"
        "snd (hand_logic_prep E st V m 0 hands ([], s))"]
    by simp
  from A B C D show ?thesis by (intro conjI)
qed

theorem single_hand_grab_and_drag_witness:
  "objects (snd (snd (interaction (steady_env 0 0) INITIAL_SETTINGS view_720p (mouth_logic view_720p None)
      [pinch_landmarks (59/64) (5/36)] (seen_at 100 100 (state_of [ball 1 110 100 20]))))) ! 0
   = (ball 1 110 100 20)\<lparr>isGrabbed := True, grabbedByHandIndex := Some 0\<rparr>"
proof -
  let ?s' = "snd (snd (interaction (steady_env 0 0) INITIAL_SETTINGS view_720p (mouth_logic view_720p None)
      [pinch_landmarks (59/64) (5/36)] (seen_at 100 100 (state_of [ball 1 110 100 20]))))"
  have run: "interaction (steady_env 0 0) INITIAL_SETTINGS view_720p (mouth_logic view_720p None)
      [pinch_landmarks (59/64) (5/36)] (seen_at 100 100 (state_of [ball 1 110 100 20]))
      = ([hand_at 100 100 True], {}, ?s')"
    by (simp add: second_pinch_run)
  have "\<forall>p. prevHandPosRef (seen_at 100 100 (state_of [ball 1 110 100 20])) 0 = Some p
             \<and> obj_id (objects (seen_at 100 100 (state_of [ball 1 110 100 20])) ! 0) \<notin> {} \<longrightarrow>
          (\<not> isGrabbed (objects (seen_at 100 100 (state_of [ball 1 110 100 20])) ! 0)
             \<and> near_hand ([hand_at 100 100 True] ! 0) (objects (seen_at 100 100 (state_of [ball 1 110 100 20])) ! 0)
           \<longrightarrow> objects ?s' ! 0 = (objects (seen_at 100 100 (state_of [ball 1 110 100 20])) ! 0)
                   \<lparr>isGrabbed := True, grabbedByHandIndex := Some 0\<rparr>)"
    using single_hand_grab_and_drag [OF run, of 0 0]
    by (simp add: seen_at_def state_of_def hand_at_def)
  then show ?thesis
    by (simp add: seen_at_def state_of_def ball_def hand_at_def near_hand_def hypot_zero_right)
qed

text \<open>
  Without a previous pinch point (the first frame that detects the hand) line 472 returns
  before any grab: hand 0 pinches at \<open>(100, 100)\<close>, the free ball of radius 20 at \<open>(110, 100)\<close> is
  within reach and in no double-grab set, and it stays ungrabbed.
\<close>

theorem first_pinch_counterexample:
  "isPinching (fst (interaction (steady_env 0 0) INITIAL_SETTINGS view_720p (mouth_logic view_720p None)
      [pinch_landmarks (59/64) (5/36)] (state_of [ball 1 110 100 20])) ! 0)
   \<and> \<not> isGrabbed (objects (state_of [ball 1 110 100 20]) ! 0)
   \<and> obj_id (objects (state_of [ball 1 110 100 20]) ! 0) \<notin> fst (snd (interaction (steady_env 0 0) INITIAL_SETTINGS view_720p (mouth_logic view_720p None)
      [pinch_landmarks (59/64) (5/36)] (state_of [ball 1 110 100 20])))
   \<and> near_hand (fst (interaction (steady_env 0 0) INITIAL_SETTINGS view_720p (mouth_logic view_720p None)
      [pinch_landmarks (59/64) (5/36)] (state_of [ball 1 110 100 20])) ! 0) (objects (state_of [ball 1 110 100 20]) ! 0)
   \<and> \<not> isGrabbed (objects (snd (snd (interaction (steady_env 0 0) INITIAL_SETTINGS view_720p (mouth_logic view_720p None)
      [pinch_landmarks (59/64) (5/36)] (state_of [ball 1 110 100 20])))) ! 0)"
  by (simp add: first_pinch_run)
     (simp add: state_of_def ball_def hand_at_def near_hand_def hypot_zero_right)

subsection \<open>Order of the steps of the interaction\<close>

















end
